theory Spec2Isabelle
  imports Main "HOL-Library.Sublist" "HOL-Library.Multiset"
begin

section \<open>Data model\<close>

text \<open>
  The declarations of \<^verbatim>\<open>AdGroup\<close>, \<^verbatim>\<open>ProcessedAsset\<close> and \<^verbatim>\<open>GroupedAssets\<close> live in
  \<^verbatim>\<open>../types\<close>; the records below hold the fields that the components read.
  Text fields are JavaScript strings, modelled as \<open>string\<close>; \<^verbatim>\<open>ad_number\<close> is a
  JavaScript number holding an integer, modelled as \<open>int\<close>; the optional \<^verbatim>\<open>date\<close> is
  an \<open>option\<close>.
\<close>

datatype asset_type = IMG | VID

record asset =
  asset_id :: string
  name :: string
  asset_type :: asset_type

record processed_asset =
  asset :: asset
  placement :: string

record ad_group =
  group_id :: string
  ad_number :: int
  campaign :: string
  product :: string
  format_token :: string
  angle :: string
  hook :: string
  creator :: string
  offer :: bool
  date :: "string option"
  assets :: "processed_asset list"

record grouped_assets =
  groups :: "ad_group list"
  ungrouped :: "processed_asset list"

section \<open>JavaScript string primitives\<close>

text \<open>\<^verbatim>\<open>String(n)\<close> for an integer \<open>n\<close>: its decimal digits, with a minus sign when negative.\<close>

definition digit_char :: "nat \<Rightarrow> char" where
  "digit_char d = ''0123456789'' ! (d mod 10)"

function nat_to_string :: "nat \<Rightarrow> string" where
  "nat_to_string n =
     (if n < 10 then [digit_char n] else nat_to_string (n div 10) @ [digit_char (n mod 10)])"
  by pat_completeness auto
termination
  by (relation "measure (\<lambda>n. n)") auto

declare nat_to_string.simps [simp del]

definition String :: "int \<Rightarrow> string" where
  "String n = (if n < 0 then CHR ''-'' # nat_to_string (nat (- n)) else nat_to_string (nat n))"

text \<open>\<^verbatim>\<open>s.padStart(n, c)\<close> with a one-character filler.\<close>

definition padStart :: "nat \<Rightarrow> char \<Rightarrow> string \<Rightarrow> string" where
  "padStart n c s = replicate (n - length s) c @ s"

text \<open>\<^verbatim>\<open>parts.join(sep)\<close>.\<close>

fun join :: "string \<Rightarrow> string list \<Rightarrow> string" where
  "join sep [] = []"
| "join sep [p] = p"
| "join sep (p # q # ps) = p @ sep @ join sep (q # ps)"

text \<open>
  \<^verbatim>\<open>s.replace(/__+/g, '_')\<close>: scanning from the left, every maximal run of two or more
  underscores is replaced by one underscore; every other character is copied.
\<close>

function replace_underscores :: "string \<Rightarrow> string" where
  "replace_underscores [] = []"
| "replace_underscores [c] = [c]"
| "replace_underscores (c # d # cs) =
     (if c = CHR ''_'' \<and> d = CHR ''_''
      then CHR ''_'' # replace_underscores (dropWhile (\<lambda>x. x = CHR ''_'') cs)
      else c # replace_underscores (d # cs))"
  by pat_completeness auto
termination
  by (relation "measure length") (auto simp: less_Suc_eq_le intro: le_trans [OF length_dropWhile_le])

text \<open>\<^verbatim>\<open>s.split(c)\<close> for a one-character separator: never the empty array.\<close>

fun split :: "char \<Rightarrow> string \<Rightarrow> string list" where
  "split c [] = [[]]"
| "split c (x # xs) =
     (if x = c then [] # split c xs
      else (case split c xs of [] \<Rightarrow> [[x]] | p # ps \<Rightarrow> (x # p) # ps))"

text \<open>\<^verbatim>\<open>arr.pop()\<close>: the last element, \<^verbatim>\<open>undefined\<close> on the empty array.\<close>

definition pop :: "'a list \<Rightarrow> 'a option" where
  "pop xs = (if xs = [] then None else Some (last xs))"

section \<open>Naming engine (AssetTable)\<close>

text \<open>The \<^verbatim>\<open>parts\<close> array of \<^verbatim>\<open>generateAdName\<close> after all its pushes.\<close>

definition truthy :: "string \<Rightarrow> bool" where
  "truthy s = (s \<noteq> [])"

definition ad_name_parts :: "ad_group \<Rightarrow> string list" where
  "ad_name_parts g =
     [padStart 3 CHR ''0'' (String (ad_number g))]
     @ (if truthy (campaign g) then [campaign g] else [])
     @ (if truthy (product g) then [product g] else [])
     @ [format_token g]
     @ (if truthy (angle g) then [angle g] else [])
     @ (if truthy (hook g) then [hook g] else [])
     @ (if truthy (creator g) then [creator g] else [])
     @ (if offer g then [''Offer''] else [])
     @ (case date g of None \<Rightarrow> [] | Some d \<Rightarrow> if truthy d then [d] else [])"

definition generateAdName :: "ad_group \<Rightarrow> string" where
  "generateAdName g = replace_underscores (join ''_'' (ad_name_parts g))"

definition asset_type_string :: "asset_type \<Rightarrow> string" where
  "asset_type_string t = (case t of IMG \<Rightarrow> ''IMG'' | VID \<Rightarrow> ''VID'')"

definition file_ext :: "string \<Rightarrow> string" where
  "file_ext nm = (case pop (split CHR ''.'' nm) of None \<Rightarrow> [] | Some e \<Rightarrow> if truthy e then e else [])"

definition generateNewFileName :: "ad_group \<Rightarrow> processed_asset \<Rightarrow> string" where
  "generateNewFileName g a =
     padStart 3 CHR ''0'' (String (ad_number g)) @ ''_'' @ asset_type_string (asset_type (asset a))
       @ ''_'' @ placement a @ ''.'' @ file_ext (name (asset a))"

text \<open>
  The name parts in the words of the specification: the padded number, then each optional
  text field if and only if it is non-empty, the format token always, the literal
  \<^verbatim>\<open>Offer\<close> if the flag is set, and the date if present.
\<close>

definition spec_name_parts :: "ad_group \<Rightarrow> string list" where
  "spec_name_parts g =
     padStart 3 CHR ''0'' (String (ad_number g))
     # filter (\<lambda>s. s \<noteq> []) [campaign g, product g]
     @ [format_token g]
     @ filter (\<lambda>s. s \<noteq> []) [angle g, hook g, creator g]
     @ (if offer g then [''Offer''] else [])
     @ filter (\<lambda>s. s \<noteq> []) (case date g of None \<Rightarrow> [] | Some d \<Rightarrow> [d])"

text \<open>The groups and the asset of the end-to-end scenarios.\<close>

definition q4_group :: ad_group where
  "q4_group = \<lparr>group_id = ''g1'', ad_number = 3, campaign = ''Q4Launch'', product = [],
     format_token = ''VID'', angle = ''Hook1'', hook = [], creator = ''Jess'', offer = True,
     date = None, assets = []\<rparr>"

definition q4_group_double :: ad_group where
  "q4_group_double = q4_group\<lparr>campaign := ''Q4__Launch''\<rparr>"

definition q4_group_no_offer :: ad_group where
  "q4_group_no_offer = q4_group\<lparr>offer := False\<rparr>"

definition offer_campaign_group :: ad_group where
  "offer_campaign_group = q4_group\<lparr>campaign := ''Offer'', offer := False\<rparr>"

definition group_12 :: ad_group where
  "group_12 = q4_group\<lparr>ad_number := 12\<rparr>"

definition raw_clip :: processed_asset where
  "raw_clip = \<lparr>asset = \<lparr>asset_id = ''a1'', name = ''raw_clip.mov'', asset_type = VID\<rparr>,
     placement = ''story''\<rparr>"

definition clip_no_ext :: processed_asset where
  "clip_no_ext = \<lparr>asset = \<lparr>asset_id = ''a2'', name = ''clip'', asset_type = VID\<rparr>,
     placement = ''story''\<rparr>"

text \<open>The free-text fields that can reach the name, and: none of them contains \<^verbatim>\<open>Offer\<close>.\<close>

definition text_fields :: "ad_group \<Rightarrow> string list" where
  "text_fields g =
     [campaign g, product g, format_token g, angle g, hook g, creator g]
     @ (case date g of None \<Rightarrow> [] | Some d \<Rightarrow> [d])"

definition offer_free :: "ad_group \<Rightarrow> bool" where
  "offer_free g = list_all (\<lambda>s. \<not> sublist ''Offer'' s) (text_fields g)"

text \<open>What follows \<^verbatim>\<open>Offer\<close> in the joined parts: the separator and the date, if any.\<close>

definition date_suffix :: "ad_group \<Rightarrow> string" where
  "date_suffix g = (case date g of None \<Rightarrow> [] | Some d \<Rightarrow> if d \<noteq> [] then ''_'' @ d else [])"

section \<open>Group sorter (ReviewPage)\<close>

definition getFirstFilename :: "ad_group \<Rightarrow> string" where
  "getFirstFilename g = (case assets g of [] \<Rightarrow> [] | a # _ \<Rightarrow> name (asset a))"

text \<open>
  \<^verbatim>\<open>filename.match(/^(\d+)/)\<close> takes the longest run of ASCII digits at the start, and
  \<^verbatim>\<open>parseInt(match[1], 10)\<close> reads it in base ten; \<open>None\<close> stands for \<^verbatim>\<open>Infinity\<close>.
  The run is read as an exact natural number, which is what JavaScript computes for
  values below \<open>2 ^ 53\<close>; \<open>exact_key\<close> marks the groups for which this is the case.
\<close>

definition is_digit :: "char \<Rightarrow> bool" where
  "is_digit c = (c \<in> set ''0123456789'')"

definition digit_value :: "char \<Rightarrow> nat" where
  "digit_value c = of_char c - 48"

definition parse_decimal :: "string \<Rightarrow> nat" where
  "parse_decimal ds = foldl (\<lambda>acc c. 10 * acc + digit_value c) 0 ds"

definition extractNumber :: "string \<Rightarrow> nat option" where
  "extractNumber filename =
     (let m = takeWhile is_digit filename
      in if m = [] then None else Some (parse_decimal m))"

definition exact_key :: "ad_group \<Rightarrow> bool" where
  "exact_key g =
     (case extractNumber (getFirstFilename g) of None \<Rightarrow> True | Some n \<Rightarrow> n < 2 ^ 53)"

text \<open>
  The comparator passed to \<^verbatim>\<open>sort\<close>. \<^verbatim>\<open>localeCompare\<close> depends on the host's
  collation, so it is the parameter \<open>lc\<close>.
\<close>

definition compareGroups :: "(string \<Rightarrow> string \<Rightarrow> int) \<Rightarrow> ad_group \<Rightarrow> ad_group \<Rightarrow> int" where
  "compareGroups lc a b =
     (let aName = getFirstFilename a;
          bName = getFirstFilename b;
          aNum = extractNumber aName;
          bNum = extractNumber bName
      in case (aNum, bNum) of
           (Some x, Some y) \<Rightarrow> int x - int y
         | _ \<Rightarrow> lc aName bName)"

text \<open>
  \<^verbatim>\<open>Array.prototype.sort\<close> is a stable sort; with a comparator that is not a consistent
  ordering its result is implementation-defined. It is modelled as the stable insertion
  sort that places each element, taken from left to right, before the first element of
  the sorted prefix that it precedes.
\<close>

fun sort_insert :: "('a \<Rightarrow> 'a \<Rightarrow> int) \<Rightarrow> 'a \<Rightarrow> 'a list \<Rightarrow> 'a list" where
  "sort_insert cmp x [] = [x]"
| "sort_insert cmp x (y # ys) = (if cmp x y < 0 then x # y # ys else y # sort_insert cmp x ys)"

fun sort_from :: "('a \<Rightarrow> 'a \<Rightarrow> int) \<Rightarrow> 'a list \<Rightarrow> 'a list \<Rightarrow> 'a list" where
  "sort_from cmp acc [] = acc"
| "sort_from cmp acc (x # xs) = sort_from cmp (sort_insert cmp x acc) xs"

definition js_sort :: "('a \<Rightarrow> 'a \<Rightarrow> int) \<Rightarrow> 'a list \<Rightarrow> 'a list" where
  "js_sort cmp xs = sort_from cmp [] xs"

definition sortedGroups :: "(string \<Rightarrow> string \<Rightarrow> int) \<Rightarrow> grouped_assets option \<Rightarrow> ad_group list" where
  "sortedGroups lc data =
     (case data of None \<Rightarrow> [] | Some d \<Rightarrow> js_sort (compareGroups lc) (groups d))"

text \<open>
  The comparator is a consistent ordering on a list: ``strictly before'' is asymmetric and
  transitive there.
\<close>

definition consistent_on :: "('a \<Rightarrow> 'a \<Rightarrow> int) \<Rightarrow> 'a list \<Rightarrow> bool" where
  "consistent_on cmp xs =
     list_all (\<lambda>a. list_all (\<lambda>b.
         (cmp a b < 0 \<longrightarrow> \<not> cmp b a < 0)
       \<and> list_all (\<lambda>c. cmp a b < 0 \<and> cmp b c < 0 \<longrightarrow> cmp a c < 0) xs) xs) xs"

text \<open>
  A comparison by character codes, to run the comparator on concrete names. It is used
  only on names that are empty or differ in their first character between a digit and a
  lowercase letter, where it orders as \<^verbatim>\<open>localeCompare\<close> does: the empty name first, digits
  before letters.
\<close>

fun ordinalCompare :: "string \<Rightarrow> string \<Rightarrow> int" where
  "ordinalCompare [] [] = 0"
| "ordinalCompare [] (y # ys) = - 1"
| "ordinalCompare (x # xs) [] = 1"
| "ordinalCompare (x # xs) (y # ys) =
     (if x = y then ordinalCompare xs ys
      else if (of_char x :: nat) < of_char y then - 1 else 1)"

definition group_of_file :: "string \<Rightarrow> string \<Rightarrow> ad_group" where
  "group_of_file gid nm = q4_group\<lparr>group_id := gid,
     assets := [\<lparr>asset = \<lparr>asset_id = gid @ ''-a'', name = nm, asset_type = VID\<rparr>, placement = ''feed''\<rparr>]\<rparr>"

definition group_12_a :: ad_group where
  "group_12_a = group_of_file ''g12'' ''12_a.mp4''"

definition group_9_b :: ad_group where
  "group_9_b = group_of_file ''g9'' ''9_b.mp4''"

definition group_named :: ad_group where
  "group_named = group_of_file ''gb'' ''b.mp4''"

definition group_no_assets :: ad_group where
  "group_no_assets = q4_group\<lparr>group_id := ''g0''\<rparr>"

definition three_groups :: grouped_assets where
  "three_groups = \<lparr>groups = [group_12_a, group_9_b, group_named], ungrouped = []\<rparr>"

section \<open>Table projection (AssetTable)\<close>

record asset_row =
  row_asset :: processed_asset
  row_group :: ad_group
  assetIndex :: nat

text \<open>\<^verbatim>\<open>group.assets.map((asset, assetIndex) => ({ asset, group, assetIndex }))\<close>\<close>

definition group_rows :: "ad_group \<Rightarrow> asset_row list" where
  "group_rows g =
     map (\<lambda>(i, a). \<lparr>row_asset = a, row_group = g, assetIndex = i\<rparr>) (enumerate 0 (assets g))"

text \<open>\<^verbatim>\<open>groups.flatMap(...)\<close>\<close>

definition rows :: "ad_group list \<Rightarrow> asset_row list" where
  "rows gs = concat (map group_rows gs)"

text \<open>
  What \<^verbatim>\<open>rows.map\<close> computes for each row before rendering it: the flag
  \<^verbatim>\<open>isFirstInGroup\<close>, read from and then recorded in the mutable set \<^verbatim>\<open>seenGroups\<close>,
  and the row span \<^verbatim>\<open>assetsInGroup\<close>.
\<close>

record table_row =
  row :: asset_row
  isFirstInGroup :: bool
  assetsInGroup :: nat

fun render_rows :: "string set \<Rightarrow> asset_row list \<Rightarrow> table_row list" where
  "render_rows seenGroups [] = []"
| "render_rows seenGroups (r # rs) =
     \<lparr>row = r,
      isFirstInGroup = (group_id (row_group r) \<notin> seenGroups),
      assetsInGroup = length (assets (row_group r))\<rparr>
     # render_rows (insert (group_id (row_group r)) seenGroups) rs"

definition AssetTable :: "ad_group list \<Rightarrow> table_row list" where
  "AssetTable gs = render_rows {} (rows gs)"

text \<open>
  The values of the options of the move drop-down of a row, top to bottom, and what its
  \<^verbatim>\<open>onChange\<close> passes to \<^verbatim>\<open>handleMoveAsset\<close> for a selected value (\<open>None\<close>: no call).
\<close>

definition move_options :: "ad_group list \<Rightarrow> asset_row \<Rightarrow> string list" where
  "move_options gs r =
     [] # map group_id (filter (\<lambda>g. group_id g \<noteq> group_id (row_group r)) gs) @ [''new'']"

definition move_onChange :: "asset_row \<Rightarrow> string \<Rightarrow> (string \<times> string option) option" where
  "move_onChange r v =
     (if v = ''new'' then Some (asset_id (asset (row_asset r)), None)
      else if truthy v then Some (asset_id (asset (row_asset r)), Some v)
      else None)"

text \<open>\<^verbatim>\<open>handleMoveAsset\<close> forwards to \<^verbatim>\<open>onRegroupAsset\<close> when that callback is given.\<close>

definition handleMoveAsset :: "(string \<Rightarrow> string option \<Rightarrow> 'r) option \<Rightarrow> string \<Rightarrow> string option \<Rightarrow> 'r option" where
  "handleMoveAsset onRegroupAsset assetId targetGroupId =
     (case onRegroupAsset of None \<Rightarrow> None | Some f \<Rightarrow> Some (f assetId targetGroupId))"

text \<open>The regroup calls that selecting the value \<open>v\<close> in the drop-down of row \<open>r\<close> issues.\<close>

definition move_select :: "(string \<Rightarrow> string option \<Rightarrow> 'r) option \<Rightarrow> asset_row \<Rightarrow> string \<Rightarrow> 'r option" where
  "move_select onRegroupAsset r v =
     (case move_onChange r v of None \<Rightarrow> None
      | Some (assetId, target) \<Rightarrow> handleMoveAsset onRegroupAsset assetId target)"

definition asset_named :: "string \<Rightarrow> string \<Rightarrow> processed_asset" where
  "asset_named aid nm = \<lparr>asset = \<lparr>asset_id = aid, name = nm, asset_type = IMG\<rparr>, placement = ''feed''\<rparr>"

definition two_groups :: "ad_group list" where
  "two_groups =
     [q4_group\<lparr>group_id := ''A'', assets := [asset_named ''a1'' ''1_x.png'', asset_named ''a2'' ''1_y.png'']\<rparr>,
      q4_group\<lparr>group_id := ''B'', ad_number := 4, assets := [asset_named ''b1'' ''2_x.png'']\<rparr>]"

section \<open>Mutation handlers (ReviewPage, api client)\<close>

text \<open>
  The handlers are asynchronous functions that await one request after the other, so
  they are modelled as state transformers. The state pairs the world behind the network,
  of an arbitrary type \<open>'w\<close>, with the client: the React state \<^verbatim>\<open>data\<close>, the lines written
  by \<^verbatim>\<open>console.error\<close>, and, as an observation device, the trace of the requests issued
  so far with their outcomes. The backend is not part of the sources; it is the
  parameter \<open>be\<close>, one function per endpoint, each answering with an error message (the
  request threw) or a reply.
\<close>

datatype field_value = StringValue string | BooleanValue bool

type_synonym updates = "(string \<times> field_value) list"

type_synonym asset_updates = "(string \<times> string) list"

datatype request =
    GetGroups
  | UpdateGroup string updates
  | UpdateAsset string string asset_updates
  | RegroupAsset string "string option"
  | Renumber int

datatype outcome = Failed string | Succeeded | Returned grouped_assets

record 'w backend =
  serve_getGroups :: "'w \<Rightarrow> (string + grouped_assets) \<times> 'w"
  serve_updateGroup :: "string \<Rightarrow> updates \<Rightarrow> 'w \<Rightarrow> (string + unit) \<times> 'w"
  serve_updateAsset :: "string \<Rightarrow> string \<Rightarrow> asset_updates \<Rightarrow> 'w \<Rightarrow> (string + unit) \<times> 'w"
  serve_regroup :: "string \<Rightarrow> string option \<Rightarrow> 'w \<Rightarrow> (string + grouped_assets) \<times> 'w"
  serve_renumber :: "int \<Rightarrow> 'w \<Rightarrow> (string + bool) \<times> 'w"

record client =
  data :: "grouped_assets option"
  console :: "(string \<times> string) list"
  trace :: "(request \<times> outcome) list"

definition record_event :: "request \<Rightarrow> outcome \<Rightarrow> client \<Rightarrow> client" where
  "record_event rq out c = c\<lparr>trace := trace c @ [(rq, out)]\<rparr>"

definition console_error :: "string \<Rightarrow> string \<Rightarrow> 'w \<times> client \<Rightarrow> 'w \<times> client" where
  "console_error msg err s = (fst s, (snd s)\<lparr>console := console (snd s) @ [(msg, err)]\<rparr>)"

definition setData :: "grouped_assets \<Rightarrow> 'w \<times> client \<Rightarrow> 'w \<times> client" where
  "setData newData s = (fst s, (snd s)\<lparr>data := Some newData\<rparr>)"

text \<open>The api client: \<^verbatim>\<open>fetchJson\<close> throws when the request fails or is answered not-ok.\<close>

definition api_getGroups :: "'w backend \<Rightarrow> 'w \<times> client \<Rightarrow> (string + grouped_assets) \<times> ('w \<times> client)" where
  "api_getGroups be s =
     (case serve_getGroups be (fst s) of
        (Inl err, w) \<Rightarrow> (Inl err, (w, record_event GetGroups (Failed err) (snd s)))
      | (Inr d, w) \<Rightarrow> (Inr d, (w, record_event GetGroups (Returned d) (snd s))))"

definition api_updateGroup :: "'w backend \<Rightarrow> string \<Rightarrow> updates \<Rightarrow> 'w \<times> client \<Rightarrow> (string + unit) \<times> ('w \<times> client)" where
  "api_updateGroup be groupId upd s =
     (case serve_updateGroup be groupId upd (fst s) of
        (Inl err, w) \<Rightarrow> (Inl err, (w, record_event (UpdateGroup groupId upd) (Failed err) (snd s)))
      | (Inr u, w) \<Rightarrow> (Inr u, (w, record_event (UpdateGroup groupId upd) Succeeded (snd s))))"

definition api_updateAsset :: "'w backend \<Rightarrow> string \<Rightarrow> string \<Rightarrow> asset_updates \<Rightarrow> 'w \<times> client \<Rightarrow> (string + unit) \<times> ('w \<times> client)" where
  "api_updateAsset be groupId assetId upd s =
     (case serve_updateAsset be groupId assetId upd (fst s) of
        (Inl err, w) \<Rightarrow> (Inl err, (w, record_event (UpdateAsset groupId assetId upd) (Failed err) (snd s)))
      | (Inr u, w) \<Rightarrow> (Inr u, (w, record_event (UpdateAsset groupId assetId upd) Succeeded (snd s))))"

definition api_regroupAsset :: "'w backend \<Rightarrow> string \<Rightarrow> string option \<Rightarrow> 'w \<times> client \<Rightarrow> (string + grouped_assets) \<times> ('w \<times> client)" where
  "api_regroupAsset be assetId targetGroupId s =
     (case serve_regroup be assetId targetGroupId (fst s) of
        (Inl err, w) \<Rightarrow> (Inl err, (w, record_event (RegroupAsset assetId targetGroupId) (Failed err) (snd s)))
      | (Inr d, w) \<Rightarrow> (Inr d, (w, record_event (RegroupAsset assetId targetGroupId) (Returned d) (snd s))))"

text \<open>
  The \<^verbatim>\<open>fetch\<close> of \<^verbatim>\<open>handleRenumber\<close> followed by its check
  \<^verbatim>\<open>if (!response.ok) throw new Error('Renumber failed')\<close>.
\<close>

definition fetch_renumber :: "'w backend \<Rightarrow> int \<Rightarrow> 'w \<times> client \<Rightarrow> (string + unit) \<times> ('w \<times> client)" where
  "fetch_renumber be startNumber s =
     (case serve_renumber be startNumber (fst s) of
        (Inl err, w) \<Rightarrow> (Inl err, (w, record_event (Renumber startNumber) (Failed err) (snd s)))
      | (Inr ok, w) \<Rightarrow>
          if ok then (Inr (), (w, record_event (Renumber startNumber) Succeeded (snd s)))
          else (Inl ''Renumber failed'',
                (w, record_event (Renumber startNumber) (Failed ''Renumber failed'') (snd s))))"

definition handleGroupUpdate :: "'w backend \<Rightarrow> string \<Rightarrow> updates \<Rightarrow> 'w \<times> client \<Rightarrow> 'w \<times> client" where
  "handleGroupUpdate be groupId upd s =
     (case api_updateGroup be groupId upd s of
        (Inl err, s1) \<Rightarrow> console_error ''Failed to update group:'' err s1
      | (Inr _, s1) \<Rightarrow>
          (case api_getGroups be s1 of
             (Inl err, s2) \<Rightarrow> console_error ''Failed to update group:'' err s2
           | (Inr newData, s2) \<Rightarrow> setData newData s2))"

definition handleAssetUpdate :: "'w backend \<Rightarrow> string \<Rightarrow> string \<Rightarrow> asset_updates \<Rightarrow> 'w \<times> client \<Rightarrow> 'w \<times> client" where
  "handleAssetUpdate be groupId assetId upd s =
     (case api_updateAsset be groupId assetId upd s of
        (Inl err, s1) \<Rightarrow> console_error ''Failed to update asset:'' err s1
      | (Inr _, s1) \<Rightarrow>
          (case api_getGroups be s1 of
             (Inl err, s2) \<Rightarrow> console_error ''Failed to update asset:'' err s2
           | (Inr newData, s2) \<Rightarrow> setData newData s2))"

text \<open>The \<^verbatim>\<open>for\<close> loop of \<^verbatim>\<open>handleBulkApply\<close>: an exception leaves the loop.\<close>

fun bulk_loop :: "'w backend \<Rightarrow> string \<Rightarrow> field_value \<Rightarrow> ad_group list \<Rightarrow> 'w \<times> client \<Rightarrow> (string + unit) \<times> ('w \<times> client)" where
  "bulk_loop be field v [] s = (Inr (), s)"
| "bulk_loop be field v (g # gs) s =
     (case api_updateGroup be (group_id g) [(field, v)] s of
        (Inl err, s1) \<Rightarrow> (Inl err, s1)
      | (Inr _, s1) \<Rightarrow> bulk_loop be field v gs s1)"

definition handleBulkApply :: "'w backend \<Rightarrow> string \<Rightarrow> field_value \<Rightarrow> 'w \<times> client \<Rightarrow> 'w \<times> client" where
  "handleBulkApply be field v s =
     (case data (snd s) of
        None \<Rightarrow> s
      | Some d \<Rightarrow>
          (case bulk_loop be field v (groups d) s of
             (Inl err, s1) \<Rightarrow> console_error ''Bulk apply failed:'' err s1
           | (Inr _, s1) \<Rightarrow>
               (case api_getGroups be s1 of
                  (Inl err, s2) \<Rightarrow> console_error ''Bulk apply failed:'' err s2
                | (Inr newData, s2) \<Rightarrow> setData newData s2)))"

definition handleRenumber :: "'w backend \<Rightarrow> int \<Rightarrow> 'w \<times> client \<Rightarrow> 'w \<times> client" where
  "handleRenumber be startNumber s =
     (case fetch_renumber be startNumber s of
        (Inl err, s1) \<Rightarrow> console_error ''Renumber failed:'' err s1
      | (Inr _, s1) \<Rightarrow>
          (case api_getGroups be s1 of
             (Inl err, s2) \<Rightarrow> console_error ''Renumber failed:'' err s2
           | (Inr newData, s2) \<Rightarrow> setData newData s2))"

definition handleRegroupAsset :: "'w backend \<Rightarrow> string \<Rightarrow> string option \<Rightarrow> 'w \<times> client \<Rightarrow> 'w \<times> client" where
  "handleRegroupAsset be assetId targetGroupId s =
     (case api_regroupAsset be assetId targetGroupId s of
        (Inl err, s1) \<Rightarrow> console_error ''Failed to regroup asset:'' err s1
      | (Inr newData, s1) \<Rightarrow> setData newData s1)"


text \<open>
  The requests that a bulk apply of \<open>field\<close> and \<open>v\<close> sends for a list of groups.
\<close>

definition bulk_requests :: "string \<Rightarrow> field_value \<Rightarrow> ad_group list \<Rightarrow> request list" where
  "bulk_requests field v gs = map (\<lambda>g. UpdateGroup (group_id g) [(field, v)]) gs"

text \<open>
  What a handler that sends the mutation requests \<open>ms\<close> and then reads the snapshot does
  to the client, from \<open>c\<close> before to \<open>c'\<close> after: either some mutation failed after its
  predecessors succeeded, and nothing after it was sent; or all succeeded and the read
  failed; or all succeeded and the snapshot returned by the read became \<^verbatim>\<open>data\<close>. A
  failure leaves \<^verbatim>\<open>data\<close> as it was and writes one console line, the message \<open>msg\<close>
  with the error.
\<close>

definition handler_outcome :: "request list \<Rightarrow> string \<Rightarrow> client \<Rightarrow> client \<Rightarrow> bool" where
  "handler_outcome ms msg c c' =
     ((\<exists>k e. k < length ms
          \<and> trace c' = trace c @ map (\<lambda>m. (m, Succeeded)) (take k ms) @ [(ms ! k, Failed e)]
          \<and> data c' = data c \<and> console c' = console c @ [(msg, e)])
    \<or> (\<exists>e. trace c' = trace c @ map (\<lambda>m. (m, Succeeded)) ms @ [(GetGroups, Failed e)]
          \<and> data c' = data c \<and> console c' = console c @ [(msg, e)])
    \<or> (\<exists>d. trace c' = trace c @ map (\<lambda>m. (m, Succeeded)) ms @ [(GetGroups, Returned d)]
          \<and> data c' = Some d \<and> console c' = console c))"

text \<open>
  What a handler does that sends the single request \<open>m\<close> and installs its reply: the
  reply, when there is one, becomes \<^verbatim>\<open>data\<close>, and no snapshot read follows.
\<close>

definition reply_outcome :: "request \<Rightarrow> string \<Rightarrow> client \<Rightarrow> client \<Rightarrow> bool" where
  "reply_outcome m msg c c' =
     ((\<exists>e. trace c' = trace c @ [(m, Failed e)]
          \<and> data c' = data c \<and> console c' = console c @ [(msg, e)])
    \<or> (\<exists>d. trace c' = trace c @ [(m, Returned d)]
          \<and> data c' = Some d \<and> console c' = console c))"

text \<open>
  The protocol ``mutate, then read the snapshot in a separate request'': whenever \<^verbatim>\<open>data\<close>
  is replaced, every mutation request of \<open>ms\<close> has succeeded, a \<^verbatim>\<open>GetGroups\<close> request
  was sent after them, and \<^verbatim>\<open>data\<close> is the snapshot it returned; otherwise \<^verbatim>\<open>data\<close> is
  untouched.
\<close>

definition rereads_after :: "request list \<Rightarrow> client \<Rightarrow> client \<Rightarrow> bool" where
  "rereads_after ms c c' =
     ((\<exists>k e. k < length ms
          \<and> trace c' = trace c @ map (\<lambda>m. (m, Succeeded)) (take k ms) @ [(ms ! k, Failed e)]
          \<and> data c' = data c)
    \<or> (\<exists>e. trace c' = trace c @ map (\<lambda>m. (m, Succeeded)) ms @ [(GetGroups, Failed e)]
          \<and> data c' = data c)
    \<or> (\<exists>d. trace c' = trace c @ map (\<lambda>m. (m, Succeeded)) ms @ [(GetGroups, Returned d)]
          \<and> data c' = Some d))"

text \<open>
  The protocol ``install the mutation's own reply'': one request, no read after it.
\<close>

definition installs_reply :: "request \<Rightarrow> client \<Rightarrow> client \<Rightarrow> bool" where
  "installs_reply m c c' =
     ((\<exists>e. trace c' = trace c @ [(m, Failed e)] \<and> data c' = data c)
    \<or> (\<exists>d. trace c' = trace c @ [(m, Returned d)] \<and> data c' = Some d))"

text \<open>
  A backend to run the handlers on: it answers every read with \<open>snap\<close> and every regroup
  with \<open>reply\<close>, refuses to update the group \<open>bad\<close>, and keeps as its state the ids of
  the groups it has updated.
\<close>

definition test_backend :: "string \<Rightarrow> grouped_assets \<Rightarrow> grouped_assets \<Rightarrow> (string list) backend" where
  "test_backend bad snap reply =
     \<lparr>serve_getGroups = (\<lambda>w. (Inr snap, w)),
      serve_updateGroup = (\<lambda>groupId upd w.
         if groupId = bad then (Inl ''boom'', w) else (Inr (), w @ [groupId])),
      serve_updateAsset = (\<lambda>groupId assetId upd w. (Inr (), w)),
      serve_regroup = (\<lambda>assetId target w. (Inr reply, w)),
      serve_renumber = (\<lambda>startNumber w. (Inr True, w))\<rparr>"

definition snapshot_3 :: grouped_assets where
  "snapshot_3 = \<lparr>groups = [q4_group\<lparr>group_id := ''g1''\<rparr>, q4_group\<lparr>group_id := ''g2''\<rparr>,
     q4_group\<lparr>group_id := ''g3''\<rparr>], ungrouped = []\<rparr>"

definition snapshot_read :: grouped_assets where
  "snapshot_read = \<lparr>groups = [q4_group\<lparr>group_id := ''g1'', campaign := ''X''\<rparr>], ungrouped = []\<rparr>"

definition snapshot_reply :: grouped_assets where
  "snapshot_reply = \<lparr>groups = [q4_group\<lparr>group_id := ''g9''\<rparr>], ungrouped = []\<rparr>"

definition client_3 :: client where
  "client_3 = \<lparr>data = Some snapshot_3, console = [], trace = []\<rparr>"

definition state_3 :: "string list \<times> client" where
  "state_3 = ([], client_3)"

text \<open>
  \<^verbatim>\<open>parseInt(string)\<close> without a radix: leading white space is skipped, a sign is read,
  a \<^verbatim>\<open>0x\<close> prefix selects base sixteen, and the longest run of digits of the base is
  read; \<open>None\<close> stands for \<^verbatim>\<open>NaN\<close>. The value is an exact integer (JavaScript rounds
  beyond \<open>2 ^ 53\<close>), and white space is the ASCII white space.
\<close>

definition is_white_space :: "char \<Rightarrow> bool" where
  "is_white_space c = (c \<in> set [CHR '' '', CHR 0x09, CHR 0x0A, CHR 0x0B, CHR 0x0C, CHR 0x0D])"

definition radix_digit :: "nat \<Rightarrow> char \<Rightarrow> nat option" where
  "radix_digit radix c =
     (case map_of (zip ''0123456789abcdefABCDEF'' ([0..<16] @ [10..<16])) c of
        None \<Rightarrow> None
      | Some d \<Rightarrow> if d < radix then Some d else None)"

definition parseInt :: "string \<Rightarrow> int option" where
  "parseInt input =
     (let s = dropWhile is_white_space input;
          negative = (s \<noteq> [] \<and> hd s = CHR ''-'');
          s = (if s \<noteq> [] \<and> (hd s = CHR ''+'' \<or> hd s = CHR ''-'') then tl s else s);
          hex = (take 2 s = ''0x'' \<or> take 2 s = ''0X'');
          radix = (if hex then 16 else 10);
          s = (if hex then drop 2 s else s);
          z = takeWhile (\<lambda>c. radix_digit radix c \<noteq> None) s
      in if z = [] then None
         else let n = foldl (\<lambda>acc c. acc * int radix
                              + int (case radix_digit radix c of None \<Rightarrow> 0 | Some d \<Rightarrow> d)) 0 z
              in Some (if negative then - n else n))"

text \<open>
  The renumber field of \<^verbatim>\<open>BulkApplyToolbar\<close>: its initial value
  \<^verbatim>\<open>sortedGroups[0]?.ad_number || 1\<close>, its change handler
  \<^verbatim>\<open>setStartNumber(parseInt(e.target.value) || 1)\<close>, and the click on Renumber, which
  passes the stored number to \<^verbatim>\<open>handleRenumber\<close>.
\<close>

definition currentStartNumber :: "ad_group list \<Rightarrow> int" where
  "currentStartNumber gs =
     (case gs of [] \<Rightarrow> 1 | g # _ \<Rightarrow> if ad_number g = 0 then 1 else ad_number g)"

definition startNumber_onChange :: "string \<Rightarrow> int" where
  "startNumber_onChange v = (case parseInt v of None \<Rightarrow> 1 | Some n \<Rightarrow> if n = 0 then 1 else n)"

definition renumber_onClick :: "'w backend \<Rightarrow> int \<Rightarrow> 'w \<times> client \<Rightarrow> 'w \<times> client" where
  "renumber_onClick be startNumber s = handleRenumber be startNumber s"

section \<open>Properties of the string primitives\<close>

lemma digit_char_in: "digit_char d \<in> set ''0123456789''"
  unfolding digit_char_def by (rule nth_mem) simp

lemma digit_char_not_underscore: "digit_char d \<noteq> CHR ''_''" "CHR ''_'' \<noteq> digit_char d"
  using digit_char_in [of d] by auto

lemma nat_to_string_no_underscore: "CHR ''_'' \<notin> set (nat_to_string n)"
proof (induction n rule: nat_to_string.induct)
  case (1 n)
  show ?case
  proof (cases "n < 10")
    case True
    then show ?thesis by (simp add: nat_to_string.simps [of n] digit_char_not_underscore)
  next
    case False
    with 1 show ?thesis
      by (simp add: nat_to_string.simps [of n] digit_char_not_underscore)
  qed
qed

lemma adNum_no_underscore: "CHR ''_'' \<notin> set (padStart 3 CHR ''0'' (String n))"
  by (simp add: padStart_def String_def nat_to_string_no_underscore)

lemma replace_underscores_skip:
  "CHR ''_'' \<notin> set xs \<Longrightarrow> replace_underscores (xs @ ys) = xs @ replace_underscores ys"
proof (induction xs)
  case Nil
  then show ?case by simp
next
  case (Cons x xs)
  then show ?case by (cases "xs @ ys") auto
qed

lemma replace_underscores_Nil_iff: "replace_underscores s = [] \<longleftrightarrow> s = []"
  by (induction s rule: replace_underscores.induct) auto

lemma replace_underscores_hd: "s \<noteq> [] \<Longrightarrow> hd (replace_underscores s) = hd s"
  by (induction s rule: replace_underscores.induct) auto

lemma dropWhile_hd: "dropWhile P xs \<noteq> [] \<Longrightarrow> \<not> P (hd (dropWhile P xs))"
  by (metis hd_dropWhile)

lemma sublist_uu_Cons:
  "sublist ''__'' (c # r) \<longleftrightarrow> (c = CHR ''_'' \<and> r \<noteq> [] \<and> hd r = CHR ''_'') \<or> sublist ''__'' r"
  by (cases r) (auto simp: sublist_Cons_right)

lemma replace_underscores_no_double: "\<not> sublist ''__'' (replace_underscores s)"
proof (induction s rule: replace_underscores.induct)
  case 1
  then show ?case by simp
next
  case (2 c)
  then show ?case by (simp add: sublist_uu_Cons)
next
  case (3 c d cs)
  show ?case
  proof (cases "c = CHR ''_'' \<and> d = CHR ''_''")
    case True
    let ?t = "dropWhile (\<lambda>x. x = CHR ''_'') cs"
    have "?t \<noteq> [] \<Longrightarrow> hd (replace_underscores ?t) \<noteq> CHR ''_''"
      using dropWhile_hd [of "\<lambda>x. x = CHR ''_''" cs] by (simp add: replace_underscores_hd)
    with True 3 show ?thesis
      by (auto simp: sublist_uu_Cons replace_underscores_Nil_iff)
  next
    case False
    with 3 show ?thesis
      by (auto simp: sublist_uu_Cons replace_underscores_Nil_iff replace_underscores_hd)
  qed
qed

lemma ad_name_parts_shape: "\<exists>q ps. ad_name_parts g = padStart 3 CHR ''0'' (String (ad_number g)) # q # ps"
  by (cases "date g") (auto simp: ad_name_parts_def)

lemma generateAdName_prefix:
  "prefix (padStart 3 CHR ''0'' (String (ad_number g))) (generateAdName g)"
proof -
  obtain q ps where "ad_name_parts g = padStart 3 CHR ''0'' (String (ad_number g)) # q # ps"
    using ad_name_parts_shape by blast
  then show ?thesis
    by (simp add: generateAdName_def replace_underscores_skip adNum_no_underscore)
qed


lemma replace_underscores_id: "\<not> sublist ''__'' s \<Longrightarrow> replace_underscores s = s"
proof (induction s rule: replace_underscores.induct)
  case 1
  show ?case by simp
next
  case (2 c)
  show ?case by simp
next
  case (3 c d cs)
  from 3(3) have nd: "\<not> (c = CHR ''_'' \<and> d = CHR ''_'')" and rest: "\<not> sublist ''__'' (d # cs)"
    by (simp_all add: sublist_uu_Cons [of c])
  from 3(2) [OF nd rest] nd show ?case by auto
qed

lemma replace_underscores_Cons:
  "c \<noteq> CHR ''_'' \<Longrightarrow> replace_underscores (c # ys) = c # replace_underscores ys"
  by (cases ys) simp_all

lemma replace_underscores_split:
  "c \<noteq> CHR ''_'' \<Longrightarrow>
   replace_underscores (xs @ c # ys) = replace_underscores xs @ c # replace_underscores ys"
proof (induction xs rule: replace_underscores.induct)
  case 1
  then show ?case by (simp add: replace_underscores_Cons)
next
  case (2 x)
  then show ?case by (simp add: replace_underscores_Cons)
next
  case (3 x d cs)
  let ?P = "\<lambda>x. x = CHR ''_''"
  show ?case
  proof (cases "x = CHR ''_'' \<and> d = CHR ''_''")
    case True
    have dw: "dropWhile ?P (cs @ c # ys) = dropWhile ?P cs @ c # ys"
      using 3(3) by (simp add: dropWhile_append3)
    have "replace_underscores ((x # d # cs) @ c # ys)
        = CHR ''_'' # replace_underscores (dropWhile ?P cs @ c # ys)"
      using True dw by simp
    also have "\<dots> = CHR ''_'' # (replace_underscores (dropWhile ?P cs) @ c # replace_underscores ys)"
      using 3(1) [OF True 3(3)] by simp
    also have "\<dots> = replace_underscores (x # d # cs) @ c # replace_underscores ys"
      using True by simp
    finally show ?thesis .
  next
    case False
    have "replace_underscores ((x # d # cs) @ c # ys) = x # replace_underscores ((d # cs) @ c # ys)"
      using False by auto
    also have "\<dots> = x # (replace_underscores (d # cs) @ c # replace_underscores ys)"
      using 3(2) [OF False 3(3)] by simp
    also have "\<dots> = replace_underscores (x # d # cs) @ c # replace_underscores ys"
      using False by auto
    finally show ?thesis .
  qed
qed

lemma prefix_replace_underscores:
  "CHR ''_'' \<notin> set w \<Longrightarrow> prefix w (replace_underscores s) \<Longrightarrow> prefix w s"
proof (induction s arbitrary: w rule: replace_underscores.induct)
  case 1
  then show ?case by simp
next
  case (2 c)
  then show ?case by simp
next
  case (3 c d cs)
  show ?case
  proof (cases w)
    case Nil
    then show ?thesis by simp
  next
    case (Cons a w')
    with 3 show ?thesis by (auto split: if_splits)
  qed
qed

lemma sublist_dropWhile: "sublist w (dropWhile P xs) \<Longrightarrow> sublist w xs"
  by (metis sublist_order.order_trans suffix_dropWhile suffix_imp_sublist)

lemma sublist_replace_underscores:
  "CHR ''_'' \<notin> set w \<Longrightarrow> w \<noteq> [] \<Longrightarrow> sublist w (replace_underscores s) \<Longrightarrow> sublist w s"
proof (induction s rule: replace_underscores.induct)
  case 1
  then show ?case by simp
next
  case (2 c)
  then show ?case by simp
next
  case (3 c d cs)
  show ?case
  proof (cases "c = CHR ''_'' \<and> d = CHR ''_''")
    case True
    with 3 have "sublist w (CHR ''_'' # replace_underscores (dropWhile (\<lambda>x. x = CHR ''_'') cs))"
      by simp
    with 3 have "sublist w (replace_underscores (dropWhile (\<lambda>x. x = CHR ''_'') cs))"
      by (cases w) (auto simp: sublist_Cons_right)
    with 3 True have "sublist w (dropWhile (\<lambda>x. x = CHR ''_'') cs)" by simp
    then have "sublist w cs" by (rule sublist_dropWhile)
    then show ?thesis by (simp add: sublist_Cons_right)
  next
    case False
    with 3 have "sublist w (c # replace_underscores (d # cs))" by auto
    then consider "prefix w (c # replace_underscores (d # cs))"
      | "sublist w (replace_underscores (d # cs))"
      by (auto simp: sublist_Cons_right)
    then show ?thesis
    proof cases
      case 1
      have "prefix w (replace_underscores (c # d # cs))" using 1 False by auto
      then have "prefix w (c # d # cs)" using 3 prefix_replace_underscores by blast
      then show ?thesis by (rule prefix_imp_sublist)
    next
      case 2
      with 3 False have "sublist w (d # cs)" by auto
      then show ?thesis by (simp add: sublist_Cons_right)
    qed
  qed
qed

lemma sublist_sep:
  assumes "c \<notin> set w" "sublist w (xs @ c # ys)"
  shows "sublist w xs \<or> sublist w ys"
proof -
  from assms(2) obtain ps ss where eq: "xs @ c # ys = ps @ w @ ss"
    by (auto simp: sublist_def)
  from append_eq_append_conv2 [THEN iffD1, OF eq]
  consider us where "xs = ps @ us" "us @ c # ys = w @ ss"
    | us where "xs @ us = ps" "c # ys = us @ w @ ss"
    by blast
  then show ?thesis
  proof cases
    case 1
    from append_eq_append_conv2 [THEN iffD1, OF 1(2)]
    consider vs where "us = w @ vs" | vs where "us @ vs = w" "c # ys = vs @ ss"
      by blast
    then show ?thesis
    proof cases
      case 1
      with \<open>xs = ps @ us\<close> show ?thesis by (auto simp: sublist_def)
    next
      case 2
      show ?thesis
      proof (cases vs)
        case Nil
        with 2 \<open>xs = ps @ us\<close> show ?thesis by auto
      next
        case (Cons v vs')
        with 2 assms(1) show ?thesis by auto
      qed
    qed
  next
    case 2
    show ?thesis
    proof (cases us)
      case Nil
      with 2 assms(1) show ?thesis by (cases w) auto
    next
      case (Cons u us')
      with 2 have "ys = us' @ w @ ss" by simp
      then show ?thesis by (auto simp: sublist_def)
    qed
  qed
qed

lemma sublist_join:
  "CHR ''_'' \<notin> set w \<Longrightarrow> w \<noteq> [] \<Longrightarrow> sublist w (join ''_'' ps) \<Longrightarrow> \<exists>p\<in>set ps. sublist w p"
proof (induction "''_''" ps rule: join.induct)
  case 1
  then show ?case by simp
next
  case (2 p)
  then show ?case by simp
next
  case (3 p q ps)
  from 3(4) have "sublist w (p @ CHR ''_'' # join ''_'' (q # ps))" by simp
  with 3(2) have "sublist w p \<or> sublist w (join ''_'' (q # ps))" by (rule sublist_sep)
  with 3 show ?case by auto
qed

lemma join_append:
  "ps \<noteq> [] \<Longrightarrow> qs \<noteq> [] \<Longrightarrow> join sep (ps @ qs) = join sep ps @ sep @ join sep qs"
proof (induction sep ps rule: join.induct)
  case (1 sep)
  then show ?case by simp
next
  case (2 sep p)
  then show ?case by (cases qs) simp_all
next
  case (3 sep p q ps)
  then show ?case by simp
qed

lemma unique_occurrence:
  assumes c: "c \<notin> set w" and w: "w \<noteq> []"
    and A: "\<not> sublist w A" "A = [] \<or> last A = c"
    and B: "\<not> sublist w B" "B = [] \<or> hd B = c"
    and eq: "ps @ w @ ss = A @ w @ B"
  shows "ps = A"
proof -
  from append_eq_append_conv2 [THEN iffD1, OF eq]
  consider us where "ps = A @ us" "us @ w @ ss = w @ B"
    | us where "ps @ us = A" "w @ ss = us @ w @ B"
    by blast
  then show ?thesis
  proof cases
    case 1
    show ?thesis
    proof (cases "us = []")
      case True
      with 1 show ?thesis by simp
    next
      case False
      from append_eq_append_conv2 [THEN iffD1, OF 1(2)]
      consider vs where "us = w @ vs" "vs @ w @ ss = B"
        | vs where "us @ vs = w" "w @ ss = vs @ B"
        by blast
      then have False
      proof cases
        case 1
        have "sublist w (vs @ w @ ss)" by (rule sublist_appendI)
        with 1(2) B(1) show False by simp
      next
        case 2
        have "length w = length us + length vs" using 2(1) by (metis length_append)
        with False have len: "length vs < length w" by simp
        have "length (w @ ss) = length (vs @ B)" using 2(2) by simp
        with len have "B \<noteq> []" by auto
        have "(w @ ss) ! length vs = (vs @ B) ! length vs" using 2(2) by simp
        with len \<open>B \<noteq> []\<close> have "w ! length vs = hd B"
          by (simp add: nth_append hd_conv_nth)
        with len have "hd B \<in> set w" by (metis nth_mem)
        with B(2) \<open>B \<noteq> []\<close> c show False by simp
      qed
      then show ?thesis ..
    qed
  next
    case 2
    show ?thesis
    proof (cases "us = []")
      case True
      with 2 show ?thesis by simp
    next
      case False
      with 2(1) A(2) have lastus: "last us = c" by auto
      from append_eq_append_conv2 [THEN iffD1, OF 2(2)]
      consider vs where "w = us @ vs" | vs where "w @ vs = us"
        by blast
      then have False
      proof cases
        case 1
        from False have "last us \<in> set us" by (rule last_in_set)
        with 1 lastus c show False by simp
      next
        case 2
        have "sublist w (ps @ w @ vs)" by (rule sublist_appendI)
        with 2 \<open>ps @ us = A\<close> A(1) show False by simp
      qed
      then show ?thesis ..
    qed
  qed
qed

section \<open>The ad name\<close>

lemma ad_name_parts_spec: "ad_name_parts g = spec_name_parts g"
  by (cases "date g") (simp_all add: ad_name_parts_def spec_name_parts_def truthy_def)

text \<open>
  C1 (as amended). The name is the join of the parts with every run of two or more
  underscores collapsed to one; it is the plain join whenever the join holds no double
  underscore; the Q4Launch scenario yields \<^verbatim>\<open>003_Q4Launch_VID_Hook1_Jess_Offer\<close>.
\<close>

theorem generateAdName_collapsed_join:
  "generateAdName g = replace_underscores (join ''_'' (spec_name_parts g))
   \<and> (\<not> sublist ''__'' (join ''_'' (spec_name_parts g))
        \<longrightarrow> generateAdName g = join ''_'' (spec_name_parts g))
   \<and> generateAdName q4_group = ''003_Q4Launch_VID_Hook1_Jess_Offer''"
proof -
  have eq: "generateAdName g = replace_underscores (join ''_'' (spec_name_parts g))"
    by (simp add: generateAdName_def ad_name_parts_spec)
  have ex: "generateAdName q4_group = ''003_Q4Launch_VID_Hook1_Jess_Offer''"
    by code_simp
  from eq ex show ?thesis by (simp add: replace_underscores_id)
qed

theorem generateAdName_collapsed_join_witness:
  "\<not> sublist ''__'' (join ''_'' (spec_name_parts q4_group))
   \<and> generateAdName q4_group = join ''_'' (spec_name_parts q4_group)"
proof -
  have h: "\<not> sublist ''__'' (join ''_'' (spec_name_parts q4_group))" by code_simp
  with generateAdName_collapsed_join [of q4_group] show ?thesis by blast
qed

text \<open>
  C1 as stated fails: a campaign holding a double underscore is not copied into the name
  unchanged, so the name is not the plain join of the parts.
\<close>

theorem generateAdName_plain_join_counterexample:
  "generateAdName q4_group_double \<noteq> join ''_'' (spec_name_parts q4_group_double)
   \<and> generateAdName q4_group_double = ''003_Q4_Launch_VID_Hook1_Jess_Offer''"
  by code_simp

text \<open>
  C7. For every group the name holds no two consecutive underscores and begins with the
  ad number padded with zeros to at least three characters.
\<close>

theorem generateAdName_no_double_underscore:
  "\<not> sublist ''__'' (generateAdName g)
   \<and> prefix (padStart 3 CHR ''0'' (String (ad_number g))) (generateAdName g)
   \<and> 3 \<le> length (padStart 3 CHR ''0'' (String (ad_number g)))"
proof -
  have "\<not> sublist ''__'' (generateAdName g)"
    unfolding generateAdName_def by (rule replace_underscores_no_double)
  moreover have "3 \<le> length (padStart 3 CHR ''0'' (String (ad_number g)))"
    by (simp add: padStart_def)
  ultimately show ?thesis using generateAdName_prefix [of g] by blast
qed

section \<open>The offer token\<close>

lemma digit_char_not_O: "digit_char d \<noteq> CHR ''O''" "CHR ''O'' \<noteq> digit_char d"
  using digit_char_in [of d] by auto

lemma nat_to_string_no_O: "CHR ''O'' \<notin> set (nat_to_string n)"
proof (induction n rule: nat_to_string.induct)
  case (1 n)
  show ?case
  proof (cases "n < 10")
    case True
    then show ?thesis by (simp add: nat_to_string.simps [of n] digit_char_not_O)
  next
    case False
    with 1 show ?thesis
      by (simp add: nat_to_string.simps [of n] digit_char_not_O)
  qed
qed

lemma adNum_no_O: "CHR ''O'' \<notin> set (padStart 3 CHR ''0'' (String n))"
  by (simp add: padStart_def String_def nat_to_string_no_O)

lemma adNum_no_Offer: "\<not> sublist ''Offer'' (padStart 3 CHR ''0'' (String n))"
proof
  assume "sublist ''Offer'' (padStart 3 CHR ''0'' (String n))"
  then have "set ''Offer'' \<subseteq> set (padStart 3 CHR ''0'' (String n))" by (rule set_mono_sublist)
  then have "CHR ''O'' \<in> set (padStart 3 CHR ''0'' (String n))" by simp
  with adNum_no_O [of n] show False by contradiction
qed

lemma suffix_last: "suffix xs ys \<Longrightarrow> xs \<noteq> [] \<Longrightarrow> last xs = last ys"
  by (auto simp: suffix_def)

lemma replace_underscores_last: "s \<noteq> [] \<Longrightarrow> last (replace_underscores s) = last s"
proof (induction s rule: replace_underscores.induct)
  case 1
  then show ?case by simp
next
  case (2 c)
  then show ?case by simp
next
  case (3 c d cs)
  let ?t = "dropWhile (\<lambda>x. x = CHR ''_'') cs"
  show ?case
  proof (cases "c = CHR ''_'' \<and> d = CHR ''_''")
    case True
    show ?thesis
    proof (cases "?t = []")
      case t: True
      then have all: "\<forall>x\<in>set cs. x = CHR ''_''" by (simp add: dropWhile_eq_Nil_conv)
      have "last (d # cs) = CHR ''_''"
      proof (cases "cs = []")
        case True
        with \<open>c = CHR ''_'' \<and> d = CHR ''_''\<close> show ?thesis by simp
      next
        case False
        then have "last cs \<in> set cs" by (rule last_in_set)
        with all False show ?thesis by simp
      qed
      then have l: "last (c # d # cs) = CHR ''_''" by simp
      have r: "replace_underscores (c # d # cs) = CHR ''_'' # replace_underscores ?t"
        using True by simp
      have e: "replace_underscores ?t = []" unfolding t by simp
      show ?thesis unfolding r e l by simp
    next
      case t: False
      have "suffix ?t cs" by (rule suffix_dropWhile)
      from this t have "last ?t = last cs" by (rule suffix_last)
      moreover from t have "cs \<noteq> []" by auto
      moreover have r: "replace_underscores (c # d # cs) = CHR ''_'' # replace_underscores ?t"
        using True by simp
      moreover have "last (replace_underscores ?t) = last ?t" using 3(1) [OF True t] .
      moreover have "replace_underscores ?t \<noteq> []" using t by (simp only: replace_underscores_Nil_iff not_False_eq_True)
      ultimately show ?thesis by simp
    qed
  next
    case False
    with 3(2) show ?thesis by (auto simp: replace_underscores_Nil_iff)
  qed
qed

lemma no_Offer_in_parts:
  assumes "\<forall>p\<in>set ps. \<not> sublist ''Offer'' p"
  shows "\<not> sublist ''Offer'' (replace_underscores (join ''_'' ps))"
proof
  assume "sublist ''Offer'' (replace_underscores (join ''_'' ps))"
  then have "sublist ''Offer'' (join ''_'' ps)"
    by (rule sublist_replace_underscores [rotated 2]) simp_all
  then have "\<exists>p\<in>set ps. sublist ''Offer'' p"
    by (rule sublist_join [rotated 2]) simp_all
  with assms show False by blast
qed

lemma ad_name_parts_subset:
  "set (ad_name_parts g) \<subseteq>
     insert (padStart 3 CHR ''0'' (String (ad_number g)))
       (set (text_fields g) \<union> (if offer g then {''Offer''} else {}))"
  by (cases "date g") (auto simp: ad_name_parts_def text_fields_def)

lemma offer_free_parts:
  assumes "offer_free g" "\<not> offer g"
  shows "\<forall>p\<in>set (ad_name_parts g). \<not> sublist ''Offer'' p"
proof
  fix p
  assume "p \<in> set (ad_name_parts g)"
  with ad_name_parts_subset [of g] assms(2)
  have "p = padStart 3 CHR ''0'' (String (ad_number g)) \<or> p \<in> set (text_fields g)" by auto
  then show "\<not> sublist ''Offer'' p"
  proof
    assume "p = padStart 3 CHR ''0'' (String (ad_number g))"
    then show ?thesis by (simp only: adNum_no_Offer not_False_eq_True)
  next
    assume "p \<in> set (text_fields g)"
    with assms(1) show ?thesis by (simp add: offer_free_def list_all_iff)
  qed
qed

lemma offer_free_before_offer:
  assumes "offer_free g"
  shows "offer_free (g\<lparr>offer := False, date := None\<rparr>)"
  using assms by (cases "date g") (simp_all add: offer_free_def text_fields_def)

lemma ad_name_parts_offer:
  "offer g \<Longrightarrow>
   join ''_'' (ad_name_parts g) =
     (join ''_'' (ad_name_parts (g\<lparr>offer := False, date := None\<rparr>)) @ ''_'') @ ''Offer'' @ date_suffix g"
proof -
  assume o: "offer g"
  let ?pre = "ad_name_parts (g\<lparr>offer := False, date := None\<rparr>)"
  let ?post = "case date g of None \<Rightarrow> [] | Some d \<Rightarrow> if truthy d then [d] else []"
  have parts: "ad_name_parts g = ?pre @ (''Offer'' # ?post)"
    using o by (simp add: ad_name_parts_def)
  have ne: "?pre \<noteq> []" by (simp add: ad_name_parts_def)
  have "join ''_'' (''Offer'' # ?post) = ''Offer'' @ date_suffix g"
    by (cases "date g") (simp_all add: date_suffix_def truthy_def)
  with parts ne join_append [of ?pre "''Offer'' # ?post" "''_''"] show ?thesis by simp
qed

lemma generateAdName_offer:
  assumes "offer g"
  shows "generateAdName g =
     replace_underscores (join ''_'' (ad_name_parts (g\<lparr>offer := False, date := None\<rparr>)) @ ''_'')
       @ ''Offer'' @ replace_underscores (date_suffix g)"
proof -
  let ?X = "join ''_'' (ad_name_parts (g\<lparr>offer := False, date := None\<rparr>)) @ ''_''"
  have "generateAdName g = replace_underscores (?X @ CHR ''O'' # (''ffer'' @ date_suffix g))"
    using ad_name_parts_offer [OF assms] by (simp add: generateAdName_def)
  also have "\<dots> = replace_underscores ?X @ CHR ''O'' # replace_underscores (''ffer'' @ date_suffix g)"
    by (rule replace_underscores_split) simp
  also have "replace_underscores (''ffer'' @ date_suffix g) = ''ffer'' @ replace_underscores (date_suffix g)"
    by (rule replace_underscores_skip) simp
  finally show ?thesis by simp
qed

lemma last_parts_before_offer:
  "last (ad_name_parts (g\<lparr>offer := False, date := None\<rparr>)) =
     (if creator g \<noteq> [] then creator g else if hook g \<noteq> [] then hook g
      else if angle g \<noteq> [] then angle g else format_token g)"
  by (simp add: ad_name_parts_def truthy_def)

text \<open>
  C8 (as amended). For a group none of whose text fields contains \<^verbatim>\<open>Offer\<close>: with the
  offer flag off, \<^verbatim>\<open>Offer\<close> does not occur in the name; with the flag on, it occurs at
  exactly one position, right after the segments up to the creator (the last of which is
  the creator, or else the nearest part pushed before it) and before the date.
\<close>

theorem generateAdName_offer_token:
  assumes "offer_free g"
  shows "(\<not> offer g \<longrightarrow> \<not> sublist ''Offer'' (generateAdName g))
    \<and> (offer g \<longrightarrow>
         (\<exists>!ps. \<exists>ss. generateAdName g = ps @ ''Offer'' @ ss)
       \<and> generateAdName g =
           replace_underscores (join ''_'' (ad_name_parts (g\<lparr>offer := False, date := None\<rparr>)) @ ''_'')
             @ ''Offer'' @ replace_underscores (date_suffix g)
       \<and> last (ad_name_parts (g\<lparr>offer := False, date := None\<rparr>)) =
           (if creator g \<noteq> [] then creator g else if hook g \<noteq> [] then hook g
            else if angle g \<noteq> [] then angle g else format_token g))"
proof (intro conjI impI)
  assume "\<not> offer g"
  with assms have "\<forall>p\<in>set (ad_name_parts g). \<not> sublist ''Offer'' p"
    by (rule offer_free_parts)
  then show "\<not> sublist ''Offer'' (generateAdName g)"
    unfolding generateAdName_def by (rule no_Offer_in_parts)
next
  assume o: "offer g"
  let ?pre = "ad_name_parts (g\<lparr>offer := False, date := None\<rparr>)"
  let ?A = "replace_underscores (join ''_'' ?pre @ ''_'')"
  let ?B = "replace_underscores (date_suffix g)"
  show name: "generateAdName g = ?A @ ''Offer'' @ ?B" by (rule generateAdName_offer [OF o])
  show "last ?pre = (if creator g \<noteq> [] then creator g else if hook g \<noteq> [] then hook g
            else if angle g \<noteq> [] then angle g else format_token g)"
    by (rule last_parts_before_offer)
  have pre: "\<forall>p\<in>set ?pre. \<not> sublist ''Offer'' p"
    by (rule offer_free_parts [OF offer_free_before_offer [OF assms]]) simp
  have A1: "\<not> sublist ''Offer'' ?A"
  proof
    assume "sublist ''Offer'' ?A"
    then have "sublist ''Offer'' (join ''_'' ?pre @ CHR ''_'' # [])"
      by (rule sublist_replace_underscores [rotated 2]) simp_all
    then have "sublist ''Offer'' (join ''_'' ?pre) \<or> sublist ''Offer'' []"
      by (rule sublist_sep [rotated]) simp
    then have "sublist ''Offer'' (join ''_'' ?pre)" by simp
    then have "\<exists>p\<in>set ?pre. sublist ''Offer'' p"
      by (rule sublist_join [rotated 2]) simp_all
    with pre show False by blast
  qed
  have A2: "?A = [] \<or> last ?A = CHR ''_''"
    by (simp add: replace_underscores_last)
  have B1: "\<not> sublist ''Offer'' ?B"
  proof
    assume "sublist ''Offer'' ?B"
    then have s: "sublist ''Offer'' (date_suffix g)"
      by (rule sublist_replace_underscores [rotated 2]) simp_all
    show False
    proof (cases "date g")
      case None
      with s show False by (simp add: date_suffix_def)
    next
      case (Some d)
      with s have "d \<noteq> []" and "sublist ''Offer'' ([] @ CHR ''_'' # d)"
        by (auto simp: date_suffix_def split: if_splits)
      then have "sublist ''Offer'' [] \<or> sublist ''Offer'' d"
        using sublist_sep [of "CHR ''_''" "''Offer''" "[]" d] by simp
      with Some assms show False by (simp add: offer_free_def text_fields_def)
    qed
  qed
  have B2: "?B = [] \<or> hd ?B = CHR ''_''"
    by (cases "date g") (auto simp: date_suffix_def replace_underscores_hd)
  show "\<exists>!ps. \<exists>ss. generateAdName g = ps @ ''Offer'' @ ss"
  proof (rule ex1I [of _ ?A])
    show "\<exists>ss. generateAdName g = ?A @ ''Offer'' @ ss" using name by blast
  next
    fix ps
    assume "\<exists>ss. generateAdName g = ps @ ''Offer'' @ ss"
    then obtain ss where "ps @ ''Offer'' @ ss = ?A @ ''Offer'' @ ?B" using name by auto
    then show "ps = ?A"
      by (rule unique_occurrence [rotated 6, OF _ _ _ A1 A2 B1 B2]) simp_all
  qed
qed

theorem generateAdName_offer_token_witness:
  "offer_free q4_group \<and> offer q4_group
   \<and> (\<exists>!ps. \<exists>ss. generateAdName q4_group = ps @ ''Offer'' @ ss)
   \<and> generateAdName q4_group = ''003_Q4Launch_VID_Hook1_Jess_'' @ ''Offer'' @ []
   \<and> offer_free q4_group_no_offer \<and> \<not> offer q4_group_no_offer
   \<and> \<not> sublist ''Offer'' (generateAdName q4_group_no_offer)"
proof -
  have a: "offer_free q4_group" by code_simp
  have b: "offer q4_group" by code_simp
  have c: "offer_free q4_group_no_offer" by code_simp
  have d: "\<not> offer q4_group_no_offer" by code_simp
  have e: "generateAdName q4_group = ''003_Q4Launch_VID_Hook1_Jess_'' @ ''Offer'' @ []" by code_simp
  from generateAdName_offer_token [OF a] generateAdName_offer_token [OF c] a b c d e
  show ?thesis by blast
qed

text \<open>
  C8 as stated fails: with the offer flag off, a campaign named \<^verbatim>\<open>Offer\<close> still puts
  that token into the name.
\<close>

theorem generateAdName_offer_token_counterexample:
  "\<not> offer offer_campaign_group
   \<and> sublist ''Offer'' (generateAdName offer_campaign_group)
   \<and> generateAdName offer_campaign_group = ''003_Offer_VID_Hook1_Jess''"
  by code_simp

section \<open>The file name of an asset\<close>

lemma split_not_Nil: "split c s \<noteq> []"
  by (induction s) (auto split: list.splits)

lemma split_no_sep: "c \<notin> set s \<Longrightarrow> split c s = [s]"
  by (induction s) auto

lemma last_split_append:
  "last (split c (xs @ c # ys)) = last (split c ys)"
proof (induction xs)
  case Nil
  show ?case by (simp add: split_not_Nil)
next
  case (Cons x xs)
  obtain p ps where sp: "split c (xs @ c # ys) = p # ps"
    using split_not_Nil [of c "xs @ c # ys"] by (cases "split c (xs @ c # ys)") auto
  show ?case
  proof (cases "x = c")
    case True
    with Cons sp show ?thesis by simp
  next
    case False
    have "ps \<noteq> []"
    proof
      assume "ps = []"
      with sp have "length (split c (xs @ c # ys)) = 1" by simp
      moreover have "length (split c (zs @ c # ys)) \<ge> 2" for zs
      proof (induction zs)
        case Nil
        then show ?case using split_not_Nil [of c ys] by (cases "split c ys") auto
      next
        case (Cons z zs)
        then show ?case by (cases "split c (zs @ c # ys)") auto
      qed
      ultimately show False by (metis numeral_le_one_iff semiring_norm(69))
    qed
    with Cons sp False show ?thesis by simp
  qed
qed

text \<open>
  The extension taken by \<^verbatim>\<open>generateNewFileName\<close>: the text after the last dot when the
  name has a dot, and the whole name when it has none.
\<close>

lemma file_ext_after_last_dot:
  "CHR ''.'' \<notin> set e \<Longrightarrow> file_ext (base @ ''.'' @ e) = e"
  using last_split_append [of "CHR ''.''" base e]
  by (simp add: file_ext_def pop_def truthy_def split_not_Nil split_no_sep)

lemma file_ext_no_dot:
  "CHR ''.'' \<notin> set nm \<Longrightarrow> file_ext nm = nm"
  by (simp add: file_ext_def pop_def truthy_def split_no_sep)

text \<open>
  C2. The file name is the padded number, the asset's own type, the placement and the
  extension; for \<^verbatim>\<open>raw_clip.mov\<close> it is \<^verbatim>\<open>012_VID_story.mov\<close>. For the name
  \<^verbatim>\<open>clip\<close>, which has no dot, the code does not end the file name with an empty
  extension: it appends the whole name as the extension.
\<close>

theorem generateNewFileName_no_dot:
  "generateNewFileName group_12 clip_no_ext = ''012_VID_story.clip''
   \<and> file_ext (name (asset clip_no_ext)) \<noteq> []
   \<and> generateNewFileName group_12 raw_clip = ''012_VID_story.mov''"
  by code_simp

section \<open>Sorting the groups\<close>

lemma mset_sort_insert: "mset (sort_insert cmp x ys) = add_mset x (mset ys)"
  by (induction ys) auto

lemma mset_sort_from: "mset (sort_from cmp acc xs) = mset acc + mset xs"
  by (induction xs arbitrary: acc) (auto simp: mset_sort_insert)

lemma set_sort_insert: "set (sort_insert cmp x ys) = insert x (set ys)"
  by (induction ys) auto

lemma sorted_sort_insert:
  assumes asym: "\<forall>a\<in>S. \<forall>b\<in>S. cmp a b < 0 \<longrightarrow> \<not> cmp b a < 0"
    and trans: "\<forall>a\<in>S. \<forall>b\<in>S. \<forall>c\<in>S. cmp a b < 0 \<longrightarrow> cmp b c < 0 \<longrightarrow> cmp a c < 0"
  shows "x \<in> S \<Longrightarrow> set ys \<subseteq> S \<Longrightarrow> sorted_wrt (\<lambda>a b. \<not> cmp b a < 0) ys
         \<Longrightarrow> sorted_wrt (\<lambda>a b. \<not> cmp b a < 0) (sort_insert cmp x ys)"
proof (induction ys)
  case Nil
  then show ?case by simp
next
  case (Cons y ys)
  from Cons.prems have yS: "y \<in> S" and ysS: "set ys \<subseteq> S" by simp_all
  from Cons.prems(3) have y_le: "\<forall>z\<in>set ys. \<not> cmp z y < 0"
    and ys_sorted: "sorted_wrt (\<lambda>a b. \<not> cmp b a < 0) ys" by simp_all
  show ?case
  proof (cases "cmp x y < 0")
    case True
    have nyx: "\<not> cmp y x < 0" using asym Cons.prems(1) yS True by blast
    have "\<not> cmp z x < 0" if z: "z \<in> set ys" for z
    proof
      assume zx: "cmp z x < 0"
      from z ysS have "z \<in> S" by blast
      with trans Cons.prems(1) yS zx True have "cmp z y < 0" by blast
      with y_le z show False by blast
    qed
    then have "\<forall>z\<in>set (y # ys). \<not> cmp z x < 0" using nyx by simp
    then have "sorted_wrt (\<lambda>a b. \<not> cmp b a < 0) (x # y # ys)"
      using Cons.prems(3) by simp
    with True show ?thesis by simp
  next
    case False
    have ih: "sorted_wrt (\<lambda>a b. \<not> cmp b a < 0) (sort_insert cmp x ys)"
      using Cons.IH [OF Cons.prems(1) ysS ys_sorted] .
    have "\<forall>z\<in>set (sort_insert cmp x ys). \<not> cmp z y < 0"
      using False y_le by (simp add: set_sort_insert)
    with ih have "sorted_wrt (\<lambda>a b. \<not> cmp b a < 0) (y # sort_insert cmp x ys)" by simp
    with False show ?thesis by simp
  qed
qed

lemma sorted_sort_from:
  assumes asym: "\<forall>a\<in>S. \<forall>b\<in>S. cmp a b < 0 \<longrightarrow> \<not> cmp b a < 0"
    and trans: "\<forall>a\<in>S. \<forall>b\<in>S. \<forall>c\<in>S. cmp a b < 0 \<longrightarrow> cmp b c < 0 \<longrightarrow> cmp a c < 0"
  shows "set acc \<subseteq> S \<Longrightarrow> set xs \<subseteq> S \<Longrightarrow> sorted_wrt (\<lambda>a b. \<not> cmp b a < 0) acc
         \<Longrightarrow> sorted_wrt (\<lambda>a b. \<not> cmp b a < 0) (sort_from cmp acc xs)"
proof (induction xs arbitrary: acc)
  case Nil
  then show ?case by simp
next
  case (Cons x xs)
  from Cons.prems(2) have xS: "x \<in> S" and xsS: "set xs \<subseteq> S" by simp_all
  have s: "sorted_wrt (\<lambda>a b. \<not> cmp b a < 0) (sort_insert cmp x acc)"
    using sorted_sort_insert [OF asym trans xS Cons.prems(1) Cons.prems(3)] .
  have sub: "set (sort_insert cmp x acc) \<subseteq> S"
    using xS Cons.prems(1) by (simp add: set_sort_insert)
  show ?case using Cons.IH [OF sub xsS s] by simp
qed

lemma consistent_onD:
  assumes "consistent_on cmp xs"
  shows "\<forall>a\<in>set xs. \<forall>b\<in>set xs. cmp a b < 0 \<longrightarrow> \<not> cmp b a < 0"
    and "\<forall>a\<in>set xs. \<forall>b\<in>set xs. \<forall>c\<in>set xs. cmp a b < 0 \<longrightarrow> cmp b c < 0 \<longrightarrow> cmp a c < 0"
  using assms unfolding consistent_on_def list_all_iff by blast+

lemma sorted_js_sort:
  assumes "consistent_on cmp xs"
  shows "sorted_wrt (\<lambda>a b. \<not> cmp b a < 0) (js_sort cmp xs)"
  unfolding js_sort_def
  by (rule sorted_sort_from [OF consistent_onD [OF assms]]) simp_all


lemma compareGroups_numeric:
  "extractNumber (getFirstFilename a) = Some x \<Longrightarrow> extractNumber (getFirstFilename b) = Some y
   \<Longrightarrow> compareGroups lc a b = int x - int y"
  by (simp add: compareGroups_def)

lemma compareGroups_alphabetic:
  "extractNumber (getFirstFilename a) = None \<or> extractNumber (getFirstFilename b) = None
   \<Longrightarrow> compareGroups lc a b = lc (getFirstFilename a) (getFirstFilename b)"
  by (auto simp: compareGroups_def Let_def split: option.splits)

lemma extractNumber_Nil: "extractNumber [] = None"
  by (simp add: extractNumber_def)

text \<open>
  C3 (as amended). \<^verbatim>\<open>sortedGroups\<close> returns a permutation of the groups which, whenever
  the comparator is a consistent ordering on them, is sorted by it. The comparator takes
  each group's first-asset file name (the empty name when the group has no assets); when
  both names start with a run of ASCII digits it compares the runs numerically, otherwise
  it compares the full names with \<^verbatim>\<open>localeCompare\<close>. A group with no assets is compared
  as the empty name against every other group, so it comes first, not last, among the
  groups it is compared with alphabetically. The names \<^verbatim>\<open>12_a.mp4\<close> and \<^verbatim>\<open>9_b.mp4\<close>
  sort with \<^verbatim>\<open>9_b.mp4\<close> first.
\<close>

theorem sortedGroups_comparator:
  "mset (sortedGroups lc (Some d)) = mset (groups d)
   \<and> (consistent_on (compareGroups lc) (groups d)
        \<longrightarrow> sorted_wrt (\<lambda>a b. \<not> compareGroups lc b a < 0) (sortedGroups lc (Some d)))
   \<and> getFirstFilename a = (if assets a = [] then [] else name (asset (hd (assets a))))
   \<and> (extractNumber (getFirstFilename a) = Some x \<and> extractNumber (getFirstFilename b) = Some y
        \<and> exact_key a \<and> exact_key b
        \<longrightarrow> compareGroups lc a b = int x - int y)
   \<and> (extractNumber (getFirstFilename a) = None \<or> extractNumber (getFirstFilename b) = None
        \<longrightarrow> compareGroups lc a b = lc (getFirstFilename a) (getFirstFilename b))
   \<and> (assets a = [] \<longrightarrow> compareGroups lc a b = lc [] (getFirstFilename b)
        \<and> (lc [] (getFirstFilename b) < 0 \<longrightarrow> sortedGroups lc (Some \<lparr>groups = [b, a], ungrouped = u\<rparr>) = [a, b]))
   \<and> sortedGroups lc (Some \<lparr>groups = [group_12_a, group_9_b], ungrouped = u\<rparr>) = [group_9_b, group_12_a]"
proof (intro conjI impI)
  show "mset (sortedGroups lc (Some d)) = mset (groups d)"
    by (simp add: sortedGroups_def js_sort_def mset_sort_from)
next
  assume "consistent_on (compareGroups lc) (groups d)"
  then show "sorted_wrt (\<lambda>a b. \<not> compareGroups lc b a < 0) (sortedGroups lc (Some d))"
    by (simp add: sortedGroups_def sorted_js_sort)
next
  show "getFirstFilename a = (if assets a = [] then [] else name (asset (hd (assets a))))"
    by (cases "assets a") (simp_all add: getFirstFilename_def)
next
  assume "extractNumber (getFirstFilename a) = Some x \<and> extractNumber (getFirstFilename b) = Some y
        \<and> exact_key a \<and> exact_key b"
  then show "compareGroups lc a b = int x - int y" by (simp add: compareGroups_numeric)
next
  assume "extractNumber (getFirstFilename a) = None \<or> extractNumber (getFirstFilename b) = None"
  then show "compareGroups lc a b = lc (getFirstFilename a) (getFirstFilename b)"
    by (rule compareGroups_alphabetic)
next
  assume e: "assets a = []"
  then have n: "getFirstFilename a = []" by (simp add: getFirstFilename_def)
  then show c: "compareGroups lc a b = lc [] (getFirstFilename b)"
    using compareGroups_alphabetic [of a b lc] by (simp add: extractNumber_Nil)
  assume "lc [] (getFirstFilename b) < 0"
  with c show "sortedGroups lc (Some \<lparr>groups = [b, a], ungrouped = u\<rparr>) = [a, b]"
    by (simp add: sortedGroups_def js_sort_def)
next
  have a: "extractNumber (getFirstFilename group_12_a) = Some 12" by code_simp
  have b: "extractNumber (getFirstFilename group_9_b) = Some 9" by code_simp
  have "compareGroups lc group_9_b group_12_a = - 3"
    using compareGroups_numeric [OF b a, of lc] by simp
  then show "sortedGroups lc (Some \<lparr>groups = [group_12_a, group_9_b], ungrouped = u\<rparr>) = [group_9_b, group_12_a]"
    by (simp add: sortedGroups_def js_sort_def)
qed

theorem sortedGroups_comparator_witness:
  "consistent_on (compareGroups ordinalCompare) (groups three_groups)
   \<and> sorted_wrt (\<lambda>a b. \<not> compareGroups ordinalCompare b a < 0)
        (sortedGroups ordinalCompare (Some three_groups))
   \<and> extractNumber (getFirstFilename group_12_a) = Some 12
   \<and> extractNumber (getFirstFilename group_9_b) = Some 9
   \<and> exact_key group_12_a \<and> exact_key group_9_b
   \<and> compareGroups ordinalCompare group_12_a group_9_b = int 12 - int 9
   \<and> extractNumber (getFirstFilename group_named) = None
   \<and> compareGroups ordinalCompare group_named group_9_b
       = ordinalCompare (getFirstFilename group_named) (getFirstFilename group_9_b)
   \<and> assets group_no_assets = []
   \<and> ordinalCompare [] (getFirstFilename group_named) < 0
   \<and> sortedGroups ordinalCompare (Some \<lparr>groups = [group_named, group_no_assets], ungrouped = []\<rparr>)
       = [group_no_assets, group_named]"
proof -
  have c: "consistent_on (compareGroups ordinalCompare) (groups three_groups)" by code_simp
  have a: "extractNumber (getFirstFilename group_12_a) = Some 12" by code_simp
  have b: "extractNumber (getFirstFilename group_9_b) = Some 9" by code_simp
  have ea: "exact_key group_12_a" by (simp add: exact_key_def a)
  have eb: "exact_key group_9_b" by (simp add: exact_key_def b)
  have n: "extractNumber (getFirstFilename group_named) = None" by code_simp
  have e: "assets group_no_assets = []" by code_simp
  have l: "ordinalCompare [] (getFirstFilename group_named) < 0" by code_simp
  note T1 = sortedGroups_comparator [of ordinalCompare three_groups group_12_a 12 group_9_b 9 "[]"]
  note T2 = sortedGroups_comparator [of ordinalCompare three_groups group_named 0 group_9_b 9 "[]"]
  note T3 = sortedGroups_comparator [of ordinalCompare three_groups group_no_assets 0 group_named 0 "[]"]
  from T1 c have s: "sorted_wrt (\<lambda>a b. \<not> compareGroups ordinalCompare b a < 0)
        (sortedGroups ordinalCompare (Some three_groups))" by blast
  from T1 a b ea eb have k: "compareGroups ordinalCompare group_12_a group_9_b = int 12 - int 9"
    by blast
  from T2 n have m: "compareGroups ordinalCompare group_named group_9_b
       = ordinalCompare (getFirstFilename group_named) (getFirstFilename group_9_b)" by blast
  from T3 e l have z: "sortedGroups ordinalCompare (Some \<lparr>groups = [group_named, group_no_assets], ungrouped = []\<rparr>)
       = [group_no_assets, group_named]" by blast
  from c s a b ea eb k n m e l z show ?thesis by blast
qed

text \<open>
  C3 as stated fails: of two groups without a leading number, the one with no assets is
  sorted first, not last.
\<close>

theorem sortedGroups_no_assets_counterexample:
  "extractNumber (getFirstFilename group_named) = None
   \<and> extractNumber (getFirstFilename group_no_assets) = None
   \<and> sortedGroups ordinalCompare (Some \<lparr>groups = [group_named, group_no_assets], ungrouped = []\<rparr>)
       = [group_no_assets, group_named]
   \<and> sortedGroups ordinalCompare (Some \<lparr>groups = [group_no_assets, group_named], ungrouped = []\<rparr>)
       = [group_no_assets, group_named]"
  by code_simp

section \<open>The table rows and the move targets\<close>

lemma group_rows_pairs:
  "map (\<lambda>r. (row_group r, row_asset r)) (group_rows g) = map (\<lambda>a. (g, a)) (assets g)"
proof -
  have "map (\<lambda>r. (row_group r, row_asset r)) (group_rows g)
      = map ((\<lambda>a. (g, a)) \<circ> snd) (enumerate 0 (assets g))"
    by (simp add: group_rows_def o_def case_prod_unfold)
  also have "\<dots> = map (\<lambda>a. (g, a)) (map snd (enumerate 0 (assets g)))"
    by (simp only: map_map)
  also have "\<dots> = map (\<lambda>a. (g, a)) (assets g)"
    by (simp only: map_snd_enumerate)
  finally show ?thesis .
qed

lemma rows_pairs:
  "map (\<lambda>r. (row_group r, row_asset r)) (rows gs) = concat (map (\<lambda>g. map (\<lambda>a. (g, a)) (assets g)) gs)"
  by (induction gs) (simp_all add: rows_def group_rows_pairs)

lemma render_rows_row: "map row (render_rows seen rs) = rs"
  by (induction rs arbitrary: seen) simp_all

lemma render_rows_span:
  "t \<in> set (render_rows seen rs) \<Longrightarrow> assetsInGroup t = length (assets (row_group (row t)))"
  by (induction rs arbitrary: seen) auto

lemma render_rows_append:
  "render_rows seen (xs @ ys) =
     render_rows seen xs @ render_rows (seen \<union> (\<lambda>r. group_id (row_group r)) ` set xs) ys"
  by (induction xs arbitrary: seen) simp_all

lemma set_group_rows:
  "r \<in> set (group_rows g) \<Longrightarrow>
     row_group r = g \<and> assetIndex r < length (assets g) \<and> assets g ! assetIndex r = row_asset r"
  by (auto simp: group_rows_def in_set_enumerate_eq)

lemma set_rows:
  "r \<in> set (rows gs) \<Longrightarrow>
     row_group r \<in> set gs \<and> assetIndex r < length (assets (row_group r))
     \<and> assets (row_group r) ! assetIndex r = row_asset r"
  by (auto simp: rows_def dest: set_group_rows)

lemma render_seen_not_first:
  "\<forall>r\<in>set rs. group_id (row_group r) \<in> seen \<Longrightarrow>
   t \<in> set (render_rows seen rs) \<Longrightarrow> \<not> isFirstInGroup t"
  by (induction rs arbitrary: seen) (auto simp: insert_absorb)

lemma in_set_map_row: "t \<in> set ts \<Longrightarrow> row t \<in> set (map row ts)"
  by simp

lemma group_rows_Cons:
  "assets g = x # xs \<Longrightarrow>
   group_rows g = \<lparr>row_asset = x, row_group = g, assetIndex = 0\<rparr>
     # map (\<lambda>(i, a). \<lparr>row_asset = a, row_group = g, assetIndex = i\<rparr>) (enumerate (Suc 0) xs)"
  by (simp add: group_rows_def)

lemma later_rows:
  "r \<in> set (map (\<lambda>(i, a). \<lparr>row_asset = a, row_group = g, assetIndex = i\<rparr>) (enumerate (Suc 0) xs))
   \<Longrightarrow> row_group r = g \<and> assetIndex r \<noteq> 0"
  by (auto simp: in_set_enumerate_eq)

lemma render_group_first:
  assumes fresh: "group_id g \<notin> seen"
    and t: "t \<in> set (render_rows seen (group_rows g))"
  shows "isFirstInGroup t = (assetIndex (row t) = 0)"
proof (cases "assets g")
  case Nil
  then have "group_rows g = []" by (simp add: group_rows_def)
  with t show ?thesis by simp
next
  case (Cons x xs)
  let ?r0 = "\<lparr>row_asset = x, row_group = g, assetIndex = 0\<rparr>"
  let ?rest = "map (\<lambda>(i, a). \<lparr>row_asset = a, row_group = g, assetIndex = i\<rparr>) (enumerate (Suc 0) xs)"
  let ?first = "\<lparr>row = ?r0, isFirstInGroup = (group_id (row_group ?r0) \<notin> seen),
      assetsInGroup = length (assets (row_group ?r0))\<rparr>"
  let ?seen' = "insert (group_id (row_group ?r0)) seen"
  have "render_rows seen (group_rows g) = ?first # render_rows ?seen' ?rest"
    by (simp only: group_rows_Cons [OF Cons] render_rows.simps)
  with t have "t = ?first \<or> t \<in> set (render_rows ?seen' ?rest)" by simp
  then show ?thesis
  proof
    assume "t = ?first"
    with fresh show ?thesis by simp
  next
    assume later: "t \<in> set (render_rows ?seen' ?rest)"
    have "\<forall>r\<in>set ?rest. group_id (row_group r) \<in> ?seen'"
    proof
      fix r assume "r \<in> set ?rest"
      from later_rows [OF this] show "group_id (row_group r) \<in> ?seen'" by simp
    qed
    from render_seen_not_first [OF this later] have nf: "\<not> isFirstInGroup t" .
    from later have "row t \<in> set (map row (render_rows ?seen' ?rest))" by (rule in_set_map_row)
    then have "row t \<in> set ?rest" by (simp only: render_rows_row)
    from later_rows [OF this] have "assetIndex (row t) \<noteq> 0" by simp
    with nf show ?thesis by simp
  qed
qed

lemma render_rows_first:
  "distinct (map group_id gs) \<Longrightarrow> seen \<inter> group_id ` set gs = {} \<Longrightarrow>
   t \<in> set (render_rows seen (rows gs)) \<Longrightarrow> isFirstInGroup t = (assetIndex (row t) = 0)"
proof (induction gs arbitrary: seen)
  case Nil
  then show ?case by (simp add: rows_def)
next
  case (Cons g gs)
  let ?seen' = "seen \<union> (\<lambda>r. group_id (row_group r)) ` set (group_rows g)"
  have "rows (g # gs) = group_rows g @ rows gs" by (simp add: rows_def)
  then have split: "render_rows seen (rows (g # gs)) =
      render_rows seen (group_rows g) @ render_rows ?seen' (rows gs)"
    by (simp only: render_rows_append)
  from Cons.prems(3) have "t \<in> set (render_rows seen (group_rows g)) \<or> t \<in> set (render_rows ?seen' (rows gs))"
    unfolding split by simp
  then show ?case
  proof
    assume 1: "t \<in> set (render_rows seen (group_rows g))"
    from Cons.prems(2) have "group_id g \<notin> seen" by simp
    from render_group_first [OF this 1] show ?thesis .
  next
    assume 2: "t \<in> set (render_rows ?seen' (rows gs))"
    have same: "\<forall>r\<in>set (group_rows g). group_id (row_group r) = group_id g"
    proof
      fix r assume "r \<in> set (group_rows g)"
      from set_group_rows [OF this] show "group_id (row_group r) = group_id g" by simp
    qed
    from Cons.prems(1) have new: "group_id g \<notin> group_id ` set gs" by simp
    from Cons.prems(2) have old: "seen \<inter> group_id ` set gs = {}" by simp
    have disj: "?seen' \<inter> group_id ` set gs = {}"
    proof (rule ccontr)
      assume "?seen' \<inter> group_id ` set gs \<noteq> {}"
      then obtain i where i: "i \<in> ?seen'" "i \<in> group_id ` set gs" by blast
      from i(1) same have "i \<in> seen \<or> i = group_id g" by blast
      moreover from old i(2) have "i \<notin> seen" by (meson disjoint_iff)
      moreover from new i(2) have "i \<noteq> group_id g" by blast
      ultimately show False by blast
    qed
    from Cons.prems(1) have "distinct (map group_id gs)" by simp
    from Cons.IH [OF this disj 2] show ?thesis .
  qed
qed

text \<open>
  C9. The table has one row per (group, asset) pair, in the order of the groups and, within
  a group, of its assets; every row carries its group's asset count as the row span; and,
  the group ids being distinct, a row is flagged as first in its group exactly when its
  asset is the first of the group.
\<close>

theorem AssetTable_projection:
  "map (\<lambda>t. (row_group (row t), row_asset (row t))) (AssetTable gs)
     = concat (map (\<lambda>g. map (\<lambda>a. (g, a)) (assets g)) gs)
   \<and> (\<forall>t\<in>set (AssetTable gs).
         assetsInGroup t = length (assets (row_group (row t)))
       \<and> assetIndex (row t) < length (assets (row_group (row t)))
       \<and> assets (row_group (row t)) ! assetIndex (row t) = row_asset (row t))
   \<and> (distinct (map group_id gs)
        \<longrightarrow> (\<forall>t\<in>set (AssetTable gs). isFirstInGroup t = (assetIndex (row t) = 0)))"
proof (intro conjI impI ballI)
  have "map (\<lambda>t. (row_group (row t), row_asset (row t))) (AssetTable gs)
      = map (\<lambda>r. (row_group r, row_asset r)) (map row (AssetTable gs))" by (simp add: o_def)
  then show "map (\<lambda>t. (row_group (row t), row_asset (row t))) (AssetTable gs)
     = concat (map (\<lambda>g. map (\<lambda>a. (g, a)) (assets g)) gs)"
    by (simp only: AssetTable_def render_rows_row rows_pairs)
next
  fix t assume t: "t \<in> set (AssetTable gs)"
  then show "assetsInGroup t = length (assets (row_group (row t)))"
    unfolding AssetTable_def by (rule render_rows_span)
  from t have "row t \<in> set (map row (render_rows {} (rows gs)))" unfolding AssetTable_def by simp
  then have r: "row t \<in> set (rows gs)" by (simp only: render_rows_row)
  from set_rows [OF r] show "assetIndex (row t) < length (assets (row_group (row t)))"
    and "assets (row_group (row t)) ! assetIndex (row t) = row_asset (row t)" by simp_all
next
  fix t assume "distinct (map group_id gs)" "t \<in> set (AssetTable gs)"
  then show "isFirstInGroup t = (assetIndex (row t) = 0)"
    unfolding AssetTable_def by (intro render_rows_first) simp_all
qed

theorem AssetTable_projection_witness:
  "distinct (map group_id two_groups)
   \<and> hd (AssetTable two_groups) \<in> set (AssetTable two_groups)
   \<and> map isFirstInGroup (AssetTable two_groups) = [True, False, True]
   \<and> map assetsInGroup (AssetTable two_groups) = [2, 2, 1]
   \<and> assetsInGroup (hd (AssetTable two_groups))
       = length (assets (row_group (row (hd (AssetTable two_groups)))))
   \<and> isFirstInGroup (hd (AssetTable two_groups))
       = (assetIndex (row (hd (AssetTable two_groups))) = 0)"
proof -
  have d: "distinct (map group_id two_groups)" by code_simp
  have n: "hd (AssetTable two_groups) \<in> set (AssetTable two_groups)" by code_simp
  have f: "map isFirstInGroup (AssetTable two_groups) = [True, False, True]" by code_simp
  have s: "map assetsInGroup (AssetTable two_groups) = [2, 2, 1]" by code_simp
  from AssetTable_projection [of two_groups] d n f s show ?thesis by blast
qed

lemma move_options_set:
  "set (move_options gs r) =
     insert [] (insert ''new'' {group_id g | g. g \<in> set gs \<and> group_id g \<noteq> group_id (row_group r)})"
  by (auto simp: move_options_def)

lemma move_select_cases:
  assumes "v \<in> set (move_options gs r)"
  shows "move_select (Some Pair) r v = None
       \<or> move_select (Some Pair) r v = Some (asset_id (asset (row_asset r)), None)
       \<or> (\<exists>g\<in>set gs. group_id g \<noteq> group_id (row_group r)
            \<and> move_select (Some Pair) r v = Some (asset_id (asset (row_asset r)), Some (group_id g)))"
proof -
  from assms consider "v = []" | "v = ''new''"
    | g where "g \<in> set gs" "group_id g \<noteq> group_id (row_group r)" "v = group_id g" "v \<noteq> ''new''" "v \<noteq> []"
    unfolding move_options_set by blast
  then show ?thesis
  proof cases
    case 1
    then show ?thesis by (simp add: move_select_def move_onChange_def truthy_def)
  next
    case 2
    then show ?thesis by (simp add: move_select_def move_onChange_def handleMoveAsset_def)
  next
    case 3
    then have "move_select (Some Pair) r v = Some (asset_id (asset (row_asset r)), Some (group_id g))"
      by (simp add: move_select_def move_onChange_def handleMoveAsset_def truthy_def)
    with 3(1,2) show ?thesis by blast
  qed
qed

text \<open>
  C10. The move drop-down of a row offers, besides its empty placeholder, exactly the ids of
  the groups other than the row's own group, and the new-group option; whatever option is
  selected, no regroup call names the row's own group as its target: the target is a new
  group or one of the other groups.
\<close>

theorem move_options_targets:
  "set (move_options gs r) =
     insert [] (insert ''new'' {group_id g | g. g \<in> set gs \<and> group_id g \<noteq> group_id (row_group r)})
   \<and> (\<forall>v\<in>set (move_options gs r).
         move_select (Some Pair) r v
           \<noteq> Some (asset_id (asset (row_asset r)), Some (group_id (row_group r))))
   \<and> (\<forall>v\<in>set (move_options gs r). \<forall>a t.
         move_select (Some Pair) r v = Some (a, t)
         \<longrightarrow> a = asset_id (asset (row_asset r))
           \<and> (t = None \<or> (\<exists>g\<in>set gs. group_id g \<noteq> group_id (row_group r) \<and> t = Some (group_id g))))"
proof (intro conjI ballI allI impI)
  show "set (move_options gs r) =
     insert [] (insert ''new'' {group_id g | g. g \<in> set gs \<and> group_id g \<noteq> group_id (row_group r)})"
    by (rule move_options_set)
next
  fix v assume "v \<in> set (move_options gs r)"
  from move_select_cases [OF this]
  show "move_select (Some Pair) r v
           \<noteq> Some (asset_id (asset (row_asset r)), Some (group_id (row_group r)))"
    by auto
next
  fix v a t
  assume "v \<in> set (move_options gs r)" and eq: "move_select (Some Pair) r v = Some (a, t)"
  from move_select_cases [OF this(1)] eq
  show "a = asset_id (asset (row_asset r))" by auto
  from move_select_cases [OF \<open>v \<in> set (move_options gs r)\<close>] eq
  show "t = None \<or> (\<exists>g\<in>set gs. group_id g \<noteq> group_id (row_group r) \<and> t = Some (group_id g))"
    by auto
qed

theorem move_options_targets_witness:
  "move_options two_groups (hd (rows two_groups)) = [[], ''B'', ''new'']
   \<and> ''B'' \<in> set (move_options two_groups (hd (rows two_groups)))
   \<and> move_select (Some Pair) (hd (rows two_groups)) ''B'' = Some (''a1'', Some ''B'')
   \<and> move_select (Some Pair) (hd (rows two_groups)) ''B''
       \<noteq> Some (asset_id (asset (row_asset (hd (rows two_groups)))),
                 Some (group_id (row_group (hd (rows two_groups)))))
   \<and> ''a1'' = asset_id (asset (row_asset (hd (rows two_groups))))"
proof -
  have o: "move_options two_groups (hd (rows two_groups)) = [[], ''B'', ''new'']" by code_simp
  then have m: "''B'' \<in> set (move_options two_groups (hd (rows two_groups)))" by simp
  have s: "move_select (Some Pair) (hd (rows two_groups)) ''B'' = Some (''a1'', Some ''B'')"
    by code_simp
  from move_options_targets [of two_groups "hd (rows two_groups)"] o m s show ?thesis by blast
qed

section \<open>The requests of the handlers\<close>

lemma api_getGroups_cases:
  obtains (fails) e w where "api_getGroups be s = (Inl e, (w, record_event GetGroups (Failed e) (snd s)))"
  | (returns) d w where "api_getGroups be s = (Inr d, (w, record_event GetGroups (Returned d) (snd s)))"
proof (cases "serve_getGroups be (fst s)")
  case (Pair r w)
  then show ?thesis
    by (cases r) (auto simp: api_getGroups_def intro: fails returns)
qed

lemma api_updateGroup_cases:
  obtains (fails) e w where
    "api_updateGroup be g u s = (Inl e, (w, record_event (UpdateGroup g u) (Failed e) (snd s)))"
  | (succeeds) w where
    "api_updateGroup be g u s = (Inr (), (w, record_event (UpdateGroup g u) Succeeded (snd s)))"
proof (cases "serve_updateGroup be g u (fst s)")
  case (Pair r w)
  then show ?thesis
    by (cases r) (auto simp: api_updateGroup_def intro: fails succeeds)
qed

lemma api_updateAsset_cases:
  obtains (fails) e w where
    "api_updateAsset be g a u s = (Inl e, (w, record_event (UpdateAsset g a u) (Failed e) (snd s)))"
  | (succeeds) w where
    "api_updateAsset be g a u s = (Inr (), (w, record_event (UpdateAsset g a u) Succeeded (snd s)))"
proof (cases "serve_updateAsset be g a u (fst s)")
  case (Pair r w)
  then show ?thesis
    by (cases r) (auto simp: api_updateAsset_def intro: fails succeeds)
qed

lemma api_regroupAsset_cases:
  obtains (fails) e w where
    "api_regroupAsset be a t s = (Inl e, (w, record_event (RegroupAsset a t) (Failed e) (snd s)))"
  | (returns) d w where
    "api_regroupAsset be a t s = (Inr d, (w, record_event (RegroupAsset a t) (Returned d) (snd s)))"
proof (cases "serve_regroup be a t (fst s)")
  case (Pair r w)
  then show ?thesis
    by (cases r) (auto simp: api_regroupAsset_def intro: fails returns)
qed

lemma fetch_renumber_cases:
  obtains (fails) e w where
    "fetch_renumber be n s = (Inl e, (w, record_event (Renumber n) (Failed e) (snd s)))"
  | (succeeds) w where
    "fetch_renumber be n s = (Inr (), (w, record_event (Renumber n) Succeeded (snd s)))"
proof (cases "serve_renumber be n (fst s)")
  case (Pair r w)
  show ?thesis
  proof (cases r)
    case (Inl e)
    with Pair show ?thesis by (auto simp: fetch_renumber_def intro: fails)
  next
    case (Inr ok)
    with Pair show ?thesis
      by (cases ok) (auto simp: fetch_renumber_def intro: fails succeeds)
  qed
qed


lemma refresh_outcome:
  assumes c1: "trace c1 = trace c @ map (\<lambda>m. (m, Succeeded)) ms" "data c1 = data c" "console c1 = console c"
  shows "handler_outcome ms msg c
     (snd (case api_getGroups be (w1, c1) of
             (Inl err, s2) \<Rightarrow> console_error msg err s2
           | (Inr newData, s2) \<Rightarrow> setData newData s2))"
proof (cases rule: api_getGroups_cases [of be "(w1, c1)"])
  case (fails e w)
  then have "\<exists>e. trace (snd (case api_getGroups be (w1, c1) of
             (Inl err, s2) \<Rightarrow> console_error msg err s2
           | (Inr newData, s2) \<Rightarrow> setData newData s2)) = trace c @ map (\<lambda>m. (m, Succeeded)) ms @ [(GetGroups, Failed e)]
      \<and> data (snd (case api_getGroups be (w1, c1) of
             (Inl err, s2) \<Rightarrow> console_error msg err s2
           | (Inr newData, s2) \<Rightarrow> setData newData s2)) = data c
      \<and> console (snd (case api_getGroups be (w1, c1) of
             (Inl err, s2) \<Rightarrow> console_error msg err s2
           | (Inr newData, s2) \<Rightarrow> setData newData s2)) = console c @ [(msg, e)]"
    using c1 by (simp add: console_error_def record_event_def)
  then show ?thesis unfolding handler_outcome_def by blast
next
  case (returns d w)
  then have "\<exists>d. trace (snd (case api_getGroups be (w1, c1) of
             (Inl err, s2) \<Rightarrow> console_error msg err s2
           | (Inr newData, s2) \<Rightarrow> setData newData s2)) = trace c @ map (\<lambda>m. (m, Succeeded)) ms @ [(GetGroups, Returned d)]
      \<and> data (snd (case api_getGroups be (w1, c1) of
             (Inl err, s2) \<Rightarrow> console_error msg err s2
           | (Inr newData, s2) \<Rightarrow> setData newData s2)) = Some d
      \<and> console (snd (case api_getGroups be (w1, c1) of
             (Inl err, s2) \<Rightarrow> console_error msg err s2
           | (Inr newData, s2) \<Rightarrow> setData newData s2)) = console c"
    using c1 by (simp add: setData_def record_event_def)
  then show ?thesis unfolding handler_outcome_def by blast
qed

lemma failed_first_outcome:
  assumes "trace c' = trace c @ [(m, Failed e)]" "data c' = data c" "console c' = console c @ [(msg, e)]"
  shows "handler_outcome [m] msg c c'"
proof -
  have "0 < length [m] \<and> trace c' = trace c @ map (\<lambda>m. (m, Succeeded)) (take 0 [m]) @ [([m] ! 0, Failed e)]
      \<and> data c' = data c \<and> console c' = console c @ [(msg, e)]"
    using assms by simp
  then show ?thesis unfolding handler_outcome_def by blast
qed

lemma handleGroupUpdate_outcome:
  "handler_outcome [UpdateGroup g u] ''Failed to update group:'' (snd s) (snd (handleGroupUpdate be g u s))"
proof (cases rule: api_updateGroup_cases [of be g u s])
  case (fails e w)
  show ?thesis
    by (rule failed_first_outcome [of _ _ _ e])
      (simp_all add: handleGroupUpdate_def fails console_error_def record_event_def)
next
  case (succeeds w)
  have "handler_outcome [UpdateGroup g u] ''Failed to update group:'' (snd s)
     (snd (case api_getGroups be (w, record_event (UpdateGroup g u) Succeeded (snd s)) of
             (Inl err, s2) \<Rightarrow> console_error ''Failed to update group:'' err s2
           | (Inr newData, s2) \<Rightarrow> setData newData s2))"
    by (rule refresh_outcome) (simp_all add: record_event_def)
  then show ?thesis by (simp add: handleGroupUpdate_def succeeds)
qed

lemma handleAssetUpdate_outcome:
  "handler_outcome [UpdateAsset g a u] ''Failed to update asset:'' (snd s) (snd (handleAssetUpdate be g a u s))"
proof (cases rule: api_updateAsset_cases [of be g a u s])
  case (fails e w)
  show ?thesis
    by (rule failed_first_outcome [of _ _ _ e])
      (simp_all add: handleAssetUpdate_def fails console_error_def record_event_def)
next
  case (succeeds w)
  have "handler_outcome [UpdateAsset g a u] ''Failed to update asset:'' (snd s)
     (snd (case api_getGroups be (w, record_event (UpdateAsset g a u) Succeeded (snd s)) of
             (Inl err, s2) \<Rightarrow> console_error ''Failed to update asset:'' err s2
           | (Inr newData, s2) \<Rightarrow> setData newData s2))"
    by (rule refresh_outcome) (simp_all add: record_event_def)
  then show ?thesis by (simp add: handleAssetUpdate_def succeeds)
qed

lemma handleRenumber_outcome:
  "handler_outcome [Renumber n] ''Renumber failed:'' (snd s) (snd (handleRenumber be n s))"
proof (cases rule: fetch_renumber_cases [of be n s])
  case (fails e w)
  show ?thesis
    by (rule failed_first_outcome [of _ _ _ e])
      (simp_all add: handleRenumber_def fails console_error_def record_event_def)
next
  case (succeeds w)
  have "handler_outcome [Renumber n] ''Renumber failed:'' (snd s)
     (snd (case api_getGroups be (w, record_event (Renumber n) Succeeded (snd s)) of
             (Inl err, s2) \<Rightarrow> console_error ''Renumber failed:'' err s2
           | (Inr newData, s2) \<Rightarrow> setData newData s2))"
    by (rule refresh_outcome) (simp_all add: record_event_def)
  then show ?thesis by (simp add: handleRenumber_def succeeds)
qed

lemma handleRegroupAsset_outcome:
  "reply_outcome (RegroupAsset a t) ''Failed to regroup asset:'' (snd s) (snd (handleRegroupAsset be a t s))"
proof (cases rule: api_regroupAsset_cases [of be a t s])
  case (fails e w)
  then have "trace (snd (handleRegroupAsset be a t s)) = trace (snd s) @ [(RegroupAsset a t, Failed e)]
      \<and> data (snd (handleRegroupAsset be a t s)) = data (snd s)
      \<and> console (snd (handleRegroupAsset be a t s)) = console (snd s) @ [(''Failed to regroup asset:'', e)]"
    by (simp add: handleRegroupAsset_def console_error_def record_event_def)
  then show ?thesis unfolding reply_outcome_def by blast
next
  case (returns d w)
  then have "trace (snd (handleRegroupAsset be a t s)) = trace (snd s) @ [(RegroupAsset a t, Returned d)]
      \<and> data (snd (handleRegroupAsset be a t s)) = Some d
      \<and> console (snd (handleRegroupAsset be a t s)) = console (snd s)"
    by (simp add: handleRegroupAsset_def setData_def record_event_def)
  then show ?thesis unfolding reply_outcome_def by blast
qed


lemma bulk_loop_outcome:
  "(\<exists>w c1. bulk_loop be f v gs s = (Inr (), (w, c1))
       \<and> trace c1 = trace (snd s) @ map (\<lambda>m. (m, Succeeded)) (bulk_requests f v gs)
       \<and> data c1 = data (snd s) \<and> console c1 = console (snd s))
   \<or> (\<exists>k e w c1. bulk_loop be f v gs s = (Inl e, (w, c1)) \<and> k < length gs
       \<and> trace c1 = trace (snd s) @ map (\<lambda>m. (m, Succeeded)) (take k (bulk_requests f v gs))
                      @ [(bulk_requests f v gs ! k, Failed e)]
       \<and> data c1 = data (snd s) \<and> console c1 = console (snd s))"
proof (induction gs arbitrary: s)
  case Nil
  have "bulk_loop be f v [] s = (Inr (), (fst s, snd s))
       \<and> trace (snd s) = trace (snd s) @ map (\<lambda>m. (m, Succeeded)) (bulk_requests f v [])
       \<and> data (snd s) = data (snd s) \<and> console (snd s) = console (snd s)"
    by (simp add: bulk_requests_def)
  then show ?case by blast
next
  case (Cons g gs)
  let ?m = "UpdateGroup (group_id g) [(f, v)]"
  show ?case
  proof (cases rule: api_updateGroup_cases [of be "group_id g" "[(f, v)]" s])
    case (fails e w)
    let ?c1 = "record_event ?m (Failed e) (snd s)"
    have "bulk_loop be f v (g # gs) s = (Inl e, (w, ?c1)) \<and> 0 < length (g # gs)
       \<and> trace ?c1 = trace (snd s) @ map (\<lambda>m. (m, Succeeded)) (take 0 (bulk_requests f v (g # gs)))
                      @ [(bulk_requests f v (g # gs) ! 0, Failed e)]
       \<and> data ?c1 = data (snd s) \<and> console ?c1 = console (snd s)"
      by (simp add: fails record_event_def bulk_requests_def)
    then show ?thesis by blast
  next
    case (succeeds w)
    let ?c = "record_event ?m Succeeded (snd s)"
    have step: "bulk_loop be f v (g # gs) s = bulk_loop be f v gs (w, ?c)"
      by (simp add: succeeds)
    have c: "trace ?c = trace (snd s) @ [(?m, Succeeded)]" "data ?c = data (snd s)"
      "console ?c = console (snd s)" by (simp_all add: record_event_def)
    have reqs: "bulk_requests f v (g # gs) = ?m # bulk_requests f v gs"
      by (simp add: bulk_requests_def)
    from Cons.IH [of "(w, ?c)"] show ?thesis
    proof
      assume "\<exists>w' c1. bulk_loop be f v gs (w, ?c) = (Inr (), (w', c1))
       \<and> trace c1 = trace (snd (w, ?c)) @ map (\<lambda>m. (m, Succeeded)) (bulk_requests f v gs)
       \<and> data c1 = data (snd (w, ?c)) \<and> console c1 = console (snd (w, ?c))"
      then obtain w' c1 where "bulk_loop be f v gs (w, ?c) = (Inr (), (w', c1))"
        "trace c1 = trace ?c @ map (\<lambda>m. (m, Succeeded)) (bulk_requests f v gs)"
        "data c1 = data ?c" "console c1 = console ?c" by auto
      then have "bulk_loop be f v (g # gs) s = (Inr (), (w', c1))
       \<and> trace c1 = trace (snd s) @ map (\<lambda>m. (m, Succeeded)) (bulk_requests f v (g # gs))
       \<and> data c1 = data (snd s) \<and> console c1 = console (snd s)"
        by (simp add: step c reqs del: bulk_loop.simps)
      then show ?thesis by blast
    next
      assume "\<exists>k e w' c1. bulk_loop be f v gs (w, ?c) = (Inl e, (w', c1)) \<and> k < length gs
       \<and> trace c1 = trace (snd (w, ?c)) @ map (\<lambda>m. (m, Succeeded)) (take k (bulk_requests f v gs))
                      @ [(bulk_requests f v gs ! k, Failed e)]
       \<and> data c1 = data (snd (w, ?c)) \<and> console c1 = console (snd (w, ?c))"
      then obtain k e w' c1 where "bulk_loop be f v gs (w, ?c) = (Inl e, (w', c1))" "k < length gs"
        "trace c1 = trace ?c @ map (\<lambda>m. (m, Succeeded)) (take k (bulk_requests f v gs))
                      @ [(bulk_requests f v gs ! k, Failed e)]"
        "data c1 = data ?c" "console c1 = console ?c" by auto
      then have "bulk_loop be f v (g # gs) s = (Inl e, (w', c1)) \<and> Suc k < length (g # gs)
       \<and> trace c1 = trace (snd s) @ map (\<lambda>m. (m, Succeeded)) (take (Suc k) (bulk_requests f v (g # gs)))
                      @ [(bulk_requests f v (g # gs) ! Suc k, Failed e)]
       \<and> data c1 = data (snd s) \<and> console c1 = console (snd s)"
        by (simp add: step c reqs del: bulk_loop.simps)
      then show ?thesis by blast
    qed
  qed
qed

lemma handleBulkApply_outcome:
  assumes d: "data (snd s) = Some d"
  shows "handler_outcome (bulk_requests f v (groups d)) ''Bulk apply failed:'' (snd s)
           (snd (handleBulkApply be f v s))"
proof -
  let ?ms = "bulk_requests f v (groups d)"
  have len: "length ?ms = length (groups d)" by (simp add: bulk_requests_def)
  from bulk_loop_outcome [of be f v "groups d" s] show ?thesis
  proof
    assume "\<exists>w c1. bulk_loop be f v (groups d) s = (Inr (), (w, c1))
       \<and> trace c1 = trace (snd s) @ map (\<lambda>m. (m, Succeeded)) ?ms
       \<and> data c1 = data (snd s) \<and> console c1 = console (snd s)"
    then obtain w c1 where l: "bulk_loop be f v (groups d) s = (Inr (), (w, c1))"
      and c1: "trace c1 = trace (snd s) @ map (\<lambda>m. (m, Succeeded)) ?ms"
        "data c1 = data (snd s)" "console c1 = console (snd s)" by auto
    have "handler_outcome ?ms ''Bulk apply failed:'' (snd s)
      (snd (case api_getGroups be (w, c1) of
             (Inl err, s2) \<Rightarrow> console_error ''Bulk apply failed:'' err s2
           | (Inr newData, s2) \<Rightarrow> setData newData s2))"
      using c1 by (rule refresh_outcome)
    then show ?thesis by (simp add: handleBulkApply_def d l)
  next
    assume "\<exists>k e w c1. bulk_loop be f v (groups d) s = (Inl e, (w, c1)) \<and> k < length (groups d)
       \<and> trace c1 = trace (snd s) @ map (\<lambda>m. (m, Succeeded)) (take k ?ms) @ [(?ms ! k, Failed e)]
       \<and> data c1 = data (snd s) \<and> console c1 = console (snd s)"
    then obtain k e w c1 where l: "bulk_loop be f v (groups d) s = (Inl e, (w, c1))"
      and k: "k < length (groups d)"
      and c1: "trace c1 = trace (snd s) @ map (\<lambda>m. (m, Succeeded)) (take k ?ms) @ [(?ms ! k, Failed e)]"
        "data c1 = data (snd s)" "console c1 = console (snd s)" by auto
    have "k < length ?ms
       \<and> trace (snd (handleBulkApply be f v s))
           = trace (snd s) @ map (\<lambda>m. (m, Succeeded)) (take k ?ms) @ [(?ms ! k, Failed e)]
       \<and> data (snd (handleBulkApply be f v s)) = data (snd s)
       \<and> console (snd (handleBulkApply be f v s)) = console (snd s) @ [(''Bulk apply failed:'', e)]"
      using k c1 by (simp add: handleBulkApply_def d l console_error_def len)
    then show ?thesis unfolding handler_outcome_def by blast
  qed
qed


lemma handler_outcome_rereads: "handler_outcome ms msg c c' \<Longrightarrow> rereads_after ms c c'"
  unfolding handler_outcome_def rereads_after_def by blast

lemma reply_outcome_installs: "reply_outcome m msg c c' \<Longrightarrow> installs_reply m c c'"
  unfolding reply_outcome_def installs_reply_def by blast

text \<open>
  C4 (as amended). Updating a group, updating an asset, renumbering and bulk-applying a
  field replace the displayed state only by the snapshot returned by a \<^verbatim>\<open>GetGroups\<close>
  request sent after the mutation requests have succeeded. Regrouping an asset is
  different: it sends one request and installs the snapshot that this request itself
  returns; no read follows.
\<close>

theorem handlers_snapshot_protocol:
  "rereads_after [UpdateGroup g u] (snd s) (snd (handleGroupUpdate be g u s))
   \<and> rereads_after [UpdateAsset g a au] (snd s) (snd (handleAssetUpdate be g a au s))
   \<and> rereads_after [Renumber n] (snd s) (snd (handleRenumber be n s))
   \<and> (data (snd s) = Some d
        \<longrightarrow> rereads_after (bulk_requests f v (groups d)) (snd s) (snd (handleBulkApply be f v s)))
   \<and> installs_reply (RegroupAsset a t) (snd s) (snd (handleRegroupAsset be a t s))"
proof (intro conjI impI)
  show "rereads_after [UpdateGroup g u] (snd s) (snd (handleGroupUpdate be g u s))"
    by (rule handler_outcome_rereads [OF handleGroupUpdate_outcome])
  show "rereads_after [UpdateAsset g a au] (snd s) (snd (handleAssetUpdate be g a au s))"
    by (rule handler_outcome_rereads [OF handleAssetUpdate_outcome])
  show "rereads_after [Renumber n] (snd s) (snd (handleRenumber be n s))"
    by (rule handler_outcome_rereads [OF handleRenumber_outcome])
  show "installs_reply (RegroupAsset a t) (snd s) (snd (handleRegroupAsset be a t s))"
    by (rule reply_outcome_installs [OF handleRegroupAsset_outcome])
next
  assume "data (snd s) = Some d"
  then show "rereads_after (bulk_requests f v (groups d)) (snd s) (snd (handleBulkApply be f v s))"
    by (rule handler_outcome_rereads [OF handleBulkApply_outcome])
qed

theorem handlers_snapshot_protocol_witness:
  "data (snd state_3) = Some snapshot_3
   \<and> rereads_after (bulk_requests ''campaign'' (StringValue ''X'') (groups snapshot_3))
        (snd state_3)
        (snd (handleBulkApply (test_backend [] snapshot_read snapshot_reply) ''campaign''
               (StringValue ''X'') state_3))
   \<and> data (snd (handleBulkApply (test_backend [] snapshot_read snapshot_reply) ''campaign''
               (StringValue ''X'') state_3)) = Some snapshot_read"
proof -
  have h: "data (snd state_3) = Some snapshot_3" by code_simp
  have r: "data (snd (handleBulkApply (test_backend [] snapshot_read snapshot_reply) ''campaign''
               (StringValue ''X'') state_3)) = Some snapshot_read" by code_simp
  from handlers_snapshot_protocol [where s = "state_3"
      and be = "test_backend [] snapshot_read snapshot_reply" and d = snapshot_3
      and f = "''campaign''" and v = "StringValue ''X''" and g = "[]" and u = "[]" and a = "[]"
      and au = "[]" and n = 0 and t = None] h r
  show ?thesis by blast
qed

text \<open>
  C4 as stated fails for regrouping: the displayed state is the reply of the regroup
  request itself, and no \<^verbatim>\<open>GetGroups\<close> request is sent.
\<close>

theorem handleRegroupAsset_counterexample:
  "trace (snd (handleRegroupAsset (test_backend [] snapshot_read snapshot_reply) ''a1'' None
                state_3))
     = [(RegroupAsset ''a1'' None, Returned snapshot_reply)]
   \<and> data (snd (handleRegroupAsset (test_backend [] snapshot_read snapshot_reply) ''a1'' None
                state_3)) = Some snapshot_reply
   \<and> snapshot_reply \<noteq> snapshot_read
   \<and> \<not> rereads_after [RegroupAsset ''a1'' None] (snd state_3)
        (snd (handleRegroupAsset (test_backend [] snapshot_read snapshot_reply) ''a1'' None
                state_3))"
proof -
  let ?c = "snd (handleRegroupAsset (test_backend [] snapshot_read snapshot_reply) ''a1'' None
                state_3)"
  have t: "trace ?c = [(RegroupAsset ''a1'' None, Returned snapshot_reply)]" by code_simp
  have d: "data ?c = Some snapshot_reply" by code_simp
  have n: "snapshot_reply \<noteq> snapshot_read" by code_simp
  have t0: "trace (snd state_3) = []" by code_simp
  have "\<not> rereads_after [RegroupAsset ''a1'' None] (snd state_3) ?c"
    unfolding rereads_after_def t t0 by simp
  with t d n show ?thesis by blast
qed

text \<open>
  C5 (as amended). A bulk apply sends one \<^verbatim>\<open>UpdateGroup\<close> request per group of the
  client's snapshot, in order, each after the previous one has succeeded. A failure at
  some group ends the loop: the groups before it have been updated, no later request and
  no snapshot read is sent, \<^verbatim>\<open>data\<close> keeps its value, and the error is written to the
  console as one line holding the message of the error, without a count.
\<close>

theorem handleBulkApply_sequential:
  "data (snd s) = Some d \<Longrightarrow>
   handler_outcome (bulk_requests f v (groups d)) ''Bulk apply failed:'' (snd s)
     (snd (handleBulkApply be f v s))"
  by (rule handleBulkApply_outcome)

theorem handleBulkApply_sequential_witness:
  "data (snd state_3) = Some snapshot_3
   \<and> handler_outcome (bulk_requests ''campaign'' (StringValue ''X'') (groups snapshot_3))
        ''Bulk apply failed:'' (snd state_3)
        (snd (handleBulkApply (test_backend ''g2'' snapshot_read snapshot_reply) ''campaign''
               (StringValue ''X'') state_3))
   \<and> trace (snd (handleBulkApply (test_backend ''g2'' snapshot_read snapshot_reply) ''campaign''
               (StringValue ''X'') state_3))
       = [(UpdateGroup ''g1'' [(''campaign'', StringValue ''X'')], Succeeded),
          (UpdateGroup ''g2'' [(''campaign'', StringValue ''X'')], Failed ''boom'')]"
proof -
  have h: "data (snd state_3) = Some snapshot_3" by code_simp
  have t: "trace (snd (handleBulkApply (test_backend ''g2'' snapshot_read snapshot_reply) ''campaign''
               (StringValue ''X'') state_3))
       = [(UpdateGroup ''g1'' [(''campaign'', StringValue ''X'')], Succeeded),
          (UpdateGroup ''g2'' [(''campaign'', StringValue ''X'')], Failed ''boom'')]" by code_simp
  from handleBulkApply_sequential [where s = "state_3" and d = snapshot_3
      and be = "test_backend ''g2'' snapshot_read snapshot_reply"
      and f = "''campaign''" and v = "StringValue ''X''"] h t
  show ?thesis by blast
qed

text \<open>
  C5 as stated fails: what the handler leaves to its caller and to the user is the same
  whether one group or two groups were updated before the failure; the count is not
  reported.
\<close>

theorem handleBulkApply_count_counterexample:
  "fst (handleBulkApply (test_backend ''g2'' snapshot_read snapshot_reply) ''campaign''
          (StringValue ''X'') state_3) = [''g1'']
   \<and> fst (handleBulkApply (test_backend ''g3'' snapshot_read snapshot_reply) ''campaign''
          (StringValue ''X'') state_3) = [''g1'', ''g2'']
   \<and> console (snd (handleBulkApply (test_backend ''g2'' snapshot_read snapshot_reply) ''campaign''
          (StringValue ''X'') state_3)) = [(''Bulk apply failed:'', ''boom'')]
   \<and> console (snd (handleBulkApply (test_backend ''g3'' snapshot_read snapshot_reply) ''campaign''
          (StringValue ''X'') state_3)) = [(''Bulk apply failed:'', ''boom'')]
   \<and> data (snd (handleBulkApply (test_backend ''g2'' snapshot_read snapshot_reply) ''campaign''
          (StringValue ''X'') state_3)) = Some snapshot_3
   \<and> data (snd (handleBulkApply (test_backend ''g3'' snapshot_read snapshot_reply) ''campaign''
          (StringValue ''X'') state_3)) = Some snapshot_3"
  by code_simp


lemma handleRenumber_sends_start_number:
  "\<exists>out rest. trace (snd (handleRenumber be n s)) = trace (snd s) @ (Renumber n, out) # rest"
proof -
  from handleRenumber_outcome [of n s be]
  consider k e where "k < length [Renumber n]"
      "trace (snd (handleRenumber be n s))
         = trace (snd s) @ map (\<lambda>m. (m, Succeeded)) (take k [Renumber n]) @ [([Renumber n] ! k, Failed e)]"
    | out where "trace (snd (handleRenumber be n s))
         = trace (snd s) @ map (\<lambda>m. (m, Succeeded)) [Renumber n] @ [(GetGroups, out)]"
    unfolding handler_outcome_def by blast
  then show ?thesis
  proof cases
    case 1
    then have "trace (snd (handleRenumber be n s)) = trace (snd s) @ (Renumber n, Failed e) # []"
      by simp
    then show ?thesis by blast
  next
    case 2
    then have "trace (snd (handleRenumber be n s))
        = trace (snd s) @ (Renumber n, Succeeded) # [(GetGroups, out)]" by simp
    then show ?thesis by blast
  qed
qed

text \<open>
  C6. A start number typed as \<^verbatim>\<open>-5\<close> is stored as \<open>-5\<close> and sent unchanged in the
  renumber request; only an empty field and \<^verbatim>\<open>0\<close> are replaced by \<open>1\<close>.
\<close>

theorem renumber_negative_start:
  "startNumber_onChange ''-5'' = - 5
   \<and> trace (snd (renumber_onClick (test_backend [] snapshot_read snapshot_reply)
                 (startNumber_onChange ''-5'') state_3))
       = [(Renumber (- 5), Succeeded), (GetGroups, Returned snapshot_read)]
   \<and> startNumber_onChange ''0'' = 1
   \<and> startNumber_onChange [] = 1"
  by code_simp

end
